theory Spec2Isabelle
  imports Main
begin

section \<open>Data model\<close>

text \<open>
  The token kinds used by the lexer (\<^verbatim>\<open>src/src/lex.cc\<close>): the members of the
  \<^verbatim>\<open>TokenType\<close> enumeration of \<^verbatim>\<open>src/src/parser/ast.h\<close>, together with
  \<^verbatim>\<open>StringLiteral\<close>, which \<^verbatim>\<open>lex.cc\<close> and the tests use.
\<close>

datatype TokenType =
    OpenParen | CloseParen | OpenBrace | CloseBrace | OpenBracket | CloseBracket
  | Declaration | SemiColon | PreCond | PostCond
  | SingleQuote | DoubleQuote | BackQuote | Dot | Comma
  | WhiteSpace | NumberLiteral | StringLiteral | Operator | Symbol | Error

text \<open>
  Message severities. The severity \<^verbatim>\<open>MessageType::Error\<close> is written \<open>MsgError\<close> here,
  the name \<open>Error\<close> being taken by the token kind.
\<close>

datatype MessageType = Info | Warning | MsgError | InternalError

datatype PassStep = Init | Lex | Parse | Check | Final

text \<open>
  \<^verbatim>\<open>Location loc = {pos, length, ctx.filename}\<close>: offsets count bytes of the source
  text. Offsets are modelled as natural numbers: every offset the lexer computes is at most
  the size of the source plus one, so the unsigned arithmetic of the code does not wrap.
\<close>

record Location =
  loc_start :: nat
  loc_length :: nat
  loc_file :: string

record Token =
  tok_type :: TokenType
  tok_loc :: Location

record Message =
  msg_loc :: Location
  msg_type :: MessageType
  msg_text :: string

text \<open>
  The pass context: the message log, the source text, the file name, the current step and
  the configured last step.
\<close>

record Context =
  msgs :: "Message list"
  content :: string
  filename :: string
  step :: PassStep
  last_step :: PassStep

text \<open>
  Modelled from the spec: \<^verbatim>\<open>Context::msg\<close>, \<^verbatim>\<open>Context::done\<close> and
  \<^verbatim>\<open>Context::startStep\<close> are declared in a header that is not part of the sources at
  hand. \<open>msg\<close> appends a message to the log; \<open>done_ctx\<close> holds iff the log contains at
  least one message of severity \<open>MsgError\<close> or \<open>InternalError\<close>; \<open>startStep\<close> records the
  entry into a pipeline stage.
\<close>

definition msg :: "Context \<Rightarrow> Location \<Rightarrow> MessageType \<Rightarrow> string \<Rightarrow> Context" where
  "msg ctx l ty txt =
     ctx\<lparr>msgs := msgs ctx @ [\<lparr>msg_loc = l, msg_type = ty, msg_text = txt\<rparr>]\<rparr>"

definition done_ctx :: "Context \<Rightarrow> bool" where
  "done_ctx ctx = list_ex (\<lambda>m. msg_type m = MsgError \<or> msg_type m = InternalError) (msgs ctx)"

definition startStep :: "Context \<Rightarrow> PassStep \<Rightarrow> Context" where
  "startStep ctx s = ctx\<lparr>step := s\<rparr>"

section \<open>Character classes of the lexer\<close>

text \<open>
  The strings are byte strings. The operator characters contain five characters outside
  ASCII, which the source file holds in UTF-8; \<^verbatim>\<open>std::string::find\<close> looks for single
  bytes, so each byte of their encodings is a member of the class.
\<close>

definition lower :: string where
  "lower = ''abcdefghijklmnopqrstuvwxyz''"

definition upper :: string where
  "upper = ''ABCDEFGHIJKLMNOPQRSTUVWXYZ''"

definition nums :: string where
  "nums = ''0123456789''"

definition whiteSpace :: string where
  "whiteSpace = [CHR '' '', CHR 0x09, CHR 0x0A, CHR 0x0D]"

definition numberChar :: string where
  "numberChar = ''.'' @ nums"

definition operatorChar :: string where
  "operatorChar =
     ''-+&#@<>^~'' @ [CHR 0xE2, CHR 0x88, CHR 0x86] @ ''%'' @ [CHR 0xE2, CHR 0x80, CHR 0xA2]
     @ ''|='' @ [CHR 0xC3, CHR 0xB7] @ [CHR 0xC3, CHR 0x97] @ [CHR 0xC2, CHR 0xB0]
     @ ''$'' @ [CHR 0x5C] @ ''/*:?!.''"

definition symbolChar :: string where
  "symbolChar = lower @ upper @ nums @ ''_''"

definition quotes :: string where
  "quotes = [CHR 0x27, CHR 0x22, CHR 0x60]"

definition matchToken :: "(string \<times> TokenType) list" where
  "matchToken =
     [(''('', OpenParen), ('')'', CloseParen), (''{'', OpenBrace), (''}'', CloseBrace),
      (''['', OpenBracket), ('']'', CloseBracket), ('';'', SemiColon),
      (''-|'', PreCond), (''|-'', PostCond), ('','', Comma)]"

section \<open>The scanners\<close>

text \<open>
  \<^verbatim>\<open>while(len < content.size() && content[len] != start) len++;\<close>
\<close>

function scanQuote :: "string \<Rightarrow> char \<Rightarrow> nat \<Rightarrow> nat" where
  "scanQuote cont q len =
     (if len < length cont \<and> cont ! len \<noteq> q then scanQuote cont q (len + 1) else len)"
  by pat_completeness auto
termination
  by (relation "measure (\<lambda>(cont, q, len). length cont - len)") auto

declare scanQuote.simps [simp del]

text \<open>
  \<^verbatim>\<open>consumeStringLiteral\<close>. Reading \<^verbatim>\<open>content[0]\<close> of an empty \<^verbatim>\<open>std::string\<close> yields
  the terminating zero byte, which is no quote.
\<close>

definition consumeStringLiteral :: "string \<Rightarrow> nat" where
  "consumeStringLiteral cont =
     (let q = (if cont = [] then CHR 0x00 else cont ! 0) in
      if q \<in> set quotes then
        (let len = scanQuote cont q 1 in
         if len < length cont then len + 1 else len)
      else 0)"

text \<open>
  The inner loop of a block comment,
  \<^verbatim>\<open>for(loc++; loc < content.size(); loc++) if(content[loc] == '/' && content[loc-1] == '*') break;\<close>
  entered at the value \<open>loc\<close> has after the initialising \<^verbatim>\<open>loc++\<close>.
\<close>

function scanBlock :: "string \<Rightarrow> nat \<Rightarrow> nat" where
  "scanBlock cont loc =
     (if loc < length cont then
        (if cont ! loc = CHR ''/'' \<and> cont ! (loc - 1) = CHR ''*'' then loc
         else scanBlock cont (loc + 1))
      else loc)"
  by pat_completeness auto
termination
  by (relation "measure (\<lambda>(cont, loc). length cont - loc)") auto

declare scanBlock.simps [simp del]

text \<open>
  The loop of a line comment,
  \<^verbatim>\<open>for(loc++; loc < content.size(); loc++) if(content[loc] == '\n') break;\<close>
\<close>

function scanLine :: "string \<Rightarrow> nat \<Rightarrow> nat" where
  "scanLine cont loc =
     (if loc < length cont then
        (if cont ! loc = CHR 0x0A then loc else scanLine cont (loc + 1))
      else loc)"
  by pat_completeness auto
termination
  by (relation "measure (\<lambda>(cont, loc). length cont - loc)") auto

declare scanLine.simps [simp del]

text \<open>
  The outer loop of \<^verbatim>\<open>consumeWhiteSpace\<close>. A whitespace byte continues the loop; any
  other byte runs the two comment tests, one after the other and both on the byte \<open>cur\<close>
  read before them, and leaves the loop. After a block comment \<open>loc\<close> is one more than the
  position where the inner loop stopped, also when it stopped at the end of the text.
\<close>

function consumeWhiteSpace_loop :: "string \<Rightarrow> nat \<Rightarrow> nat" where
  "consumeWhiteSpace_loop cont loc =
     (if loc < length cont then
        (let cur = cont ! loc in
         if cur \<in> set whiteSpace then consumeWhiteSpace_loop cont (loc + 1)
         else
           (let loc1 =
                  (if cur = CHR ''/'' \<and> loc + 1 < length cont \<and> cont ! (loc + 1) = CHR ''*''
                   then scanBlock cont (loc + 1 + 1) + 1
                   else loc);
                loc2 =
                  (if (cur = CHR ''/'' \<and> loc1 + 1 < length cont \<and> cont ! (loc1 + 1) = CHR ''/'')
                      \<or> cur = CHR ''#''
                   then scanLine cont (loc1 + 1)
                   else loc1)
            in loc2))
      else loc)"
  by pat_completeness auto
termination
  by (relation "measure (\<lambda>(cont, loc). length cont - loc)") auto

declare consumeWhiteSpace_loop.simps [simp del]

definition consumeWhiteSpace :: "string \<Rightarrow> nat" where
  "consumeWhiteSpace cont = consumeWhiteSpace_loop cont 0"

text \<open>
  \<^verbatim>\<open>matchesFrom\<close>: the length of the longest prefix of \<open>cont\<close> made of bytes of \<open>chars\<close>.
\<close>

function matchesFrom_loop :: "string \<Rightarrow> string \<Rightarrow> nat \<Rightarrow> nat" where
  "matchesFrom_loop chars cont len =
     (if len < length cont then
        (if cont ! len \<notin> set chars then len else matchesFrom_loop chars cont (len + 1))
      else len)"
  by pat_completeness auto
termination
  by (relation "measure (\<lambda>(chars, cont, len). length cont - len)") auto

declare matchesFrom_loop.simps [simp del]

definition matchesFrom :: "string \<Rightarrow> string \<Rightarrow> nat" where
  "matchesFrom chars cont = matchesFrom_loop chars cont 0"

text \<open>
  The loop of \<^verbatim>\<open>chooseTok\<close> over the table of literal tokens: the first entry that is a
  prefix of the text wins (\<^verbatim>\<open>content.substr(0, tokS.size()) == tokS\<close>).
\<close>

fun matchLiteral :: "(string \<times> TokenType) list \<Rightarrow> string \<Rightarrow> (TokenType \<times> nat) option" where
  "matchLiteral [] cont = None"
| "matchLiteral ((tokS, ty) # rest) cont =
     (if take (length tokS) cont = tokS then Some (ty, length tokS)
      else matchLiteral rest cont)"

definition chooseTok :: "string \<Rightarrow> TokenType \<times> nat" where
  "chooseTok cont =
     (case matchLiteral matchToken cont of
        Some r \<Rightarrow> r
      | None \<Rightarrow>
          if consumeStringLiteral cont \<noteq> 0 then (StringLiteral, consumeStringLiteral cont)
          else if consumeWhiteSpace cont \<noteq> 0 then (WhiteSpace, consumeWhiteSpace cont)
          else if matchesFrom operatorChar cont \<noteq> 0 then (Operator, matchesFrom operatorChar cont)
          else if matchesFrom numberChar cont \<noteq> 0 then (NumberLiteral, matchesFrom numberChar cont)
          else if matchesFrom symbolChar cont \<noteq> 0 then (Symbol, matchesFrom symbolChar cont)
          else (Error, 1))"

section \<open>The lexer\<close>

text \<open>
  The loop of \<^verbatim>\<open>lex\<close>, with the scan position, the tokens collected so far and the
  context as its state. A token of length zero would leave the position where it is, so
  the loop is a partial function: the value \<open>None\<close> stands for a loop that does not return.
\<close>

partial_function (option) lex_loop :: "Context \<Rightarrow> nat \<Rightarrow> Token list \<Rightarrow> (Token list \<times> Context) option" where
  "lex_loop ctx pos toks =
     (if pos < length (content ctx) then
        (let next = chooseTok (drop pos (content ctx));
             ty = fst next;
             len = snd next;
             l = \<lparr>loc_start = pos, loc_length = len, loc_file = filename ctx\<rparr>
         in
           if len = 0 then
             lex_loop (msg ctx l InternalError ''Illegal empty token'') (pos + len) toks
           else if ty = Error then
             lex_loop (msg ctx l MsgError ''Unexpected character'') (pos + len) toks
           else
             lex_loop ctx (pos + len) (toks @ [\<lparr>tok_type = ty, tok_loc = l\<rparr>]))
      else Some (toks, ctx))"

declare lex_loop.simps [code]

definition lex_ctx :: "Context \<Rightarrow> (Token list \<times> Context) option" where
  "lex_ctx ctx = lex_loop (startStep ctx Lex) 0 []"

section \<open>The driver\<close>

text \<open>
  What \<^verbatim>\<open>getTree\<close> writes to the error stream, as events: the number of tokens, the
  tokens, the tree.
\<close>

datatype 'tree Output = OutLexed nat | OutTokens "Token list" | OutTree "'tree option"

text \<open>
  \<^verbatim>\<open>getTree\<close> (\<^verbatim>\<open>src/src/compile.cc\<close>). The tree builder \<^verbatim>\<open>ast::ast\<close> is not part of
  the sources at hand and is a parameter: it takes the tokens and the context and returns
  the optional tree and the context. The result is the optional tree, the context as
  \<^verbatim>\<open>getTree\<close> leaves it and the events written; \<open>None\<close> stands for a lexer loop that does
  not return.
\<close>

definition getTree ::
  "(Token list \<Rightarrow> Context \<Rightarrow> 'tree option \<times> Context) \<Rightarrow> Context
     \<Rightarrow> ('tree option \<times> Context \<times> 'tree Output list) option" where
  "getTree ast ctx =
     (if done_ctx ctx then Some (None, ctx, [])
      else
        (case lex_ctx ctx of
           None \<Rightarrow> None
         | Some (toks, ctx1) \<Rightarrow>
             if done_ctx ctx1 then Some (None, ctx1, [OutLexed (length toks), OutTokens toks])
             else
               (let (tree, ctx2) = ast toks ctx1 in
                Some (tree, ctx2, if done_ctx ctx2 then [OutTree tree] else []))))"

section \<open>The invariant of the lexer loop\<close>

text \<open>
  The predicates below state what holds of the tokens and of the messages the loop has
  produced when the scan position is \<open>pos\<close>: every token is the choice of \<open>chooseTok\<close> at
  its start and ends at or before \<open>pos\<close>, the tokens lie one after the other, every message
  reports one byte that no rule matches, and every offset below \<open>pos\<close> lies in a token or
  is reported by a message, never both.
\<close>

definition in_span :: "nat \<Rightarrow> Location \<Rightarrow> bool" where
  "in_span p l \<longleftrightarrow> loc_start l \<le> p \<and> p < loc_start l + loc_length l"

definition tok_ok :: "Context \<Rightarrow> Token \<Rightarrow> bool" where
  "tok_ok ctx t \<longleftrightarrow>
     loc_start (tok_loc t) < length (content ctx) \<and>
     loc_file (tok_loc t) = filename ctx \<and>
     tok_type t \<noteq> Error \<and>
     0 < loc_length (tok_loc t) \<and>
     chooseTok (drop (loc_start (tok_loc t)) (content ctx)) = (tok_type t, loc_length (tok_loc t))"

definition unexpected :: "Context \<Rightarrow> nat \<Rightarrow> Message" where
  "unexpected ctx p =
     \<lparr>msg_loc = \<lparr>loc_start = p, loc_length = 1, loc_file = filename ctx\<rparr>,
      msg_type = MsgError, msg_text = ''Unexpected character''\<rparr>"

definition msg_ok :: "Context \<Rightarrow> Message \<Rightarrow> bool" where
  "msg_ok ctx m \<longleftrightarrow>
     loc_start (msg_loc m) < length (content ctx) \<and>
     m = unexpected ctx (loc_start (msg_loc m)) \<and>
     chooseTok (drop (loc_start (msg_loc m)) (content ctx)) = (Error, 1)"

definition lex_inv :: "Context \<Rightarrow> nat \<Rightarrow> Token list \<Rightarrow> Message list \<Rightarrow> bool" where
  "lex_inv ctx pos toks new \<longleftrightarrow>
     (\<forall>t \<in> set toks. tok_ok ctx t \<and> loc_start (tok_loc t) + loc_length (tok_loc t) \<le> pos) \<and>
     sorted_wrt (\<lambda>a b. loc_start a + loc_length a \<le> loc_start b) (map tok_loc toks) \<and>
     (\<forall>m \<in> set new. msg_ok ctx m \<and> loc_start (msg_loc m) < pos) \<and>
     sorted_wrt (\<lambda>a b. loc_start (msg_loc a) < loc_start (msg_loc b)) new \<and>
     (\<forall>p < pos. (\<exists>t \<in> set toks. in_span p (tok_loc t)) \<noteq> (\<exists>m \<in> set new. loc_start (msg_loc m) = p))"

section \<open>Specification vocabulary\<close>

text \<open>
  The context the tests build for a source text,
  \<^verbatim>\<open>Context ctx = {msgs, "...", "<filename>"}\<close> with an empty log, and a token of that file.
\<close>

definition test_ctx :: "string \<Rightarrow> Context" where
  "test_ctx s = \<lparr>msgs = [], content = s, filename = ''<filename>'', step = Init, last_step = Final\<rparr>"

definition token :: "TokenType \<Rightarrow> nat \<Rightarrow> nat \<Rightarrow> Token" where
  "token ty s n = \<lparr>tok_type = ty, tok_loc = \<lparr>loc_start = s, loc_length = n, loc_file = ''<filename>''\<rparr>\<rparr>"

text \<open>
  The partition property in the words of the specification: the spans, in the order of
  emission, start at \<open>p\<close>, each begins where the one before it ends, and the last ends
  at \<open>n\<close>. \<open>tokens_partition_source\<close> says so of the tokens \<open>lex\<close> returns and of the range
  from 0 to the length of the text.
\<close>

fun spans_partition :: "nat \<Rightarrow> Location list \<Rightarrow> nat \<Rightarrow> bool" where
  "spans_partition p [] n = (p = n)"
| "spans_partition p (l # ls) n = (loc_start l = p \<and> spans_partition (p + loc_length l) ls n)"

definition tokens_partition_source :: "Context \<Rightarrow> bool" where
  "tokens_partition_source ctx =
     (case lex_ctx ctx of
        None \<Rightarrow> False
      | Some (toks, ctx') \<Rightarrow> spans_partition 0 (map tok_loc toks) (length (content ctx)))"

section \<open>Properties of the token chooser and of the loop\<close>

lemma matchLiteral_matchToken:
  "matchLiteral matchToken cont = Some (ty, n) \<Longrightarrow> 0 < n \<and> ty \<noteq> Error"
  by (simp add: matchToken_def split: if_splits)

lemma chooseTok_pos: "0 < snd (chooseTok cont)"
  by (auto simp: chooseTok_def split: option.splits dest: matchLiteral_matchToken)

lemma chooseTok_Error: "fst (chooseTok cont) = Error \<Longrightarrow> snd (chooseTok cont) = 1"
  by (auto simp: chooseTok_def split: option.splits if_splits dest: matchLiteral_matchToken)

lemma content_msg [simp]: "content (msg ctx l ty txt) = content ctx"
  and filename_msg [simp]: "filename (msg ctx l ty txt) = filename ctx"
  and msgs_msg [simp]: "msgs (msg ctx l ty txt) = msgs ctx @ [\<lparr>msg_loc = l, msg_type = ty, msg_text = txt\<rparr>]"
  by (simp_all add: msg_def)

lemma lex_loop_end: "length (content ctx) \<le> pos \<Longrightarrow> lex_loop ctx pos toks = Some (toks, ctx)"
  by (subst lex_loop.simps) simp

lemma lex_loop_Error:
  assumes "pos < length (content ctx)" and "fst (chooseTok (drop pos (content ctx))) = Error"
  shows "lex_loop ctx pos toks =
    lex_loop (msg ctx \<lparr>loc_start = pos, loc_length = 1, loc_file = filename ctx\<rparr> MsgError ''Unexpected character'')
      (pos + 1) toks"
  using assms chooseTok_Error[OF assms(2)]
  by (subst lex_loop.simps) (simp add: Let_def)

lemma lex_loop_token:
  assumes "pos < length (content ctx)" and "fst (chooseTok (drop pos (content ctx))) \<noteq> Error"
  shows "lex_loop ctx pos toks =
    lex_loop ctx (pos + snd (chooseTok (drop pos (content ctx))))
      (toks @ [\<lparr>tok_type = fst (chooseTok (drop pos (content ctx))),
                tok_loc = \<lparr>loc_start = pos, loc_length = snd (chooseTok (drop pos (content ctx))),
                          loc_file = filename ctx\<rparr>\<rparr>])"
  using assms chooseTok_pos[of "drop pos (content ctx)"]
  by (subst lex_loop.simps) (simp add: Let_def)

lemma lex_inv_init: "lex_inv ctx 0 [] []"
  by (simp add: lex_inv_def)

lemma lex_inv_Error:
  assumes inv: "lex_inv ctx pos toks new"
    and pos: "pos < length (content ctx)"
    and err: "fst (chooseTok (drop pos (content ctx))) = Error"
  shows "lex_inv ctx (pos + 1) toks (new @ [unexpected ctx pos])"
proof -
  have ct: "chooseTok (drop pos (content ctx)) = (Error, 1)"
    using err chooseTok_Error[OF err] by (simp add: prod_eq_iff)
  have ok: "msg_ok ctx (unexpected ctx pos)"
    using pos ct by (simp add: msg_ok_def unexpected_def)
  have st: "loc_start (msg_loc (unexpected ctx pos)) = pos"
    by (simp add: unexpected_def)
  have a: "\<forall>t \<in> set toks. tok_ok ctx t \<and> loc_start (tok_loc t) + loc_length (tok_loc t) \<le> pos + 1"
    using inv by (auto simp: lex_inv_def)
  have c: "\<forall>m \<in> set (new @ [unexpected ctx pos]). msg_ok ctx m \<and> loc_start (msg_loc m) < pos + 1"
    using inv ok st by (auto simp: lex_inv_def)
  have d: "sorted_wrt (\<lambda>a b. loc_start (msg_loc a) < loc_start (msg_loc b)) (new @ [unexpected ctx pos])"
    using inv st by (auto simp: lex_inv_def sorted_wrt_append)
  have e: "(\<exists>t \<in> set toks. in_span p (tok_loc t)) \<noteq>
           (\<exists>m \<in> set (new @ [unexpected ctx pos]). loc_start (msg_loc m) = p)" if "p < pos + 1" for p
  proof (cases "p < pos")
    case True
    then have "(\<exists>t \<in> set toks. in_span p (tok_loc t)) \<noteq> (\<exists>m \<in> set new. loc_start (msg_loc m) = p)"
      using inv by (simp add: lex_inv_def)
    moreover have "loc_start (msg_loc (unexpected ctx pos)) \<noteq> p" using True st by simp
    ultimately show ?thesis by auto
  next
    case False
    then have "p = pos" using that by simp
    moreover have "\<not> (\<exists>t \<in> set toks. in_span pos (tok_loc t))"
      using inv by (fastforce simp: lex_inv_def in_span_def)
    ultimately show ?thesis using st by auto
  qed
  show ?thesis
    unfolding lex_inv_def using a c d e inv by (simp add: lex_inv_def)
qed

lemma lex_inv_token:
  assumes inv: "lex_inv ctx pos toks new"
    and pos: "pos < length (content ctx)"
    and ty: "fst (chooseTok (drop pos (content ctx))) \<noteq> Error"
  shows "lex_inv ctx (pos + snd (chooseTok (drop pos (content ctx))))
           (toks @ [\<lparr>tok_type = fst (chooseTok (drop pos (content ctx))),
                     tok_loc = \<lparr>loc_start = pos, loc_length = snd (chooseTok (drop pos (content ctx))),
                               loc_file = filename ctx\<rparr>\<rparr>]) new"
proof -
  define n where "n = snd (chooseTok (drop pos (content ctx)))"
  define t where "t = \<lparr>tok_type = fst (chooseTok (drop pos (content ctx))),
                     tok_loc = \<lparr>loc_start = pos, loc_length = n, loc_file = filename ctx\<rparr>\<rparr>"
  have n: "0 < n" unfolding n_def by (rule chooseTok_pos)
  have ok: "tok_ok ctx t"
    using pos ty n by (simp add: tok_ok_def t_def n_def)
  have st: "loc_start (tok_loc t) = pos" "loc_length (tok_loc t) = n"
    by (simp_all add: t_def)
  have a: "\<forall>u \<in> set (toks @ [t]). tok_ok ctx u \<and> loc_start (tok_loc u) + loc_length (tok_loc u) \<le> pos + n"
    using inv ok st by (auto simp: lex_inv_def)
  have b: "sorted_wrt (\<lambda>a b. loc_start a + loc_length a \<le> loc_start b) (map tok_loc (toks @ [t]))"
    using inv st by (auto simp: lex_inv_def sorted_wrt_append)
  have c: "\<forall>m \<in> set new. msg_ok ctx m \<and> loc_start (msg_loc m) < pos + n"
    using inv by (auto simp: lex_inv_def)
  have e: "(\<exists>u \<in> set (toks @ [t]). in_span p (tok_loc u)) \<noteq>
           (\<exists>m \<in> set new. loc_start (msg_loc m) = p)" if "p < pos + n" for p
  proof (cases "p < pos")
    case True
    then have "(\<exists>t \<in> set toks. in_span p (tok_loc t)) \<noteq> (\<exists>m \<in> set new. loc_start (msg_loc m) = p)"
      using inv by (simp add: lex_inv_def)
    moreover have "\<not> in_span p (tok_loc t)" using True st by (simp add: in_span_def)
    ultimately show ?thesis by auto
  next
    case False
    then have "in_span p (tok_loc t)" using that st by (simp add: in_span_def)
    moreover have "\<not> (\<exists>m \<in> set new. loc_start (msg_loc m) = p)"
      using inv False by (fastforce simp: lex_inv_def)
    ultimately show ?thesis by auto
  qed
  have "lex_inv ctx (pos + n) (toks @ [t]) new"
    unfolding lex_inv_def using a b c e inv by (simp add: lex_inv_def)
  then show ?thesis by (simp add: n_def t_def)
qed

lemma lex_loop_inv:
  assumes "lex_inv ctx0 pos toks new"
  shows "\<exists>toks' new' pos'.
           lex_loop (ctx0\<lparr>msgs := msgs ctx0 @ new\<rparr>) pos toks = Some (toks', ctx0\<lparr>msgs := msgs ctx0 @ new'\<rparr>) \<and>
           length (content ctx0) \<le> pos' \<and> lex_inv ctx0 pos' toks' new'"
  using assms
proof (induction "length (content ctx0) - pos" arbitrary: pos toks new rule: less_induct)
  case less
  let ?ctx = "ctx0\<lparr>msgs := msgs ctx0 @ new\<rparr>"
  show ?case
  proof (cases "pos < length (content ctx0)")
    case False
    then have "lex_loop ?ctx pos toks = Some (toks, ?ctx)"
      by (simp add: lex_loop_end)
    then show ?thesis using False less.prems by (intro exI[of _ toks] exI[of _ new] exI[of _ pos]) simp
  next
    case True
    show ?thesis
    proof (cases "fst (chooseTok (drop pos (content ctx0))) = Error")
      case err: True
      have step: "lex_loop ?ctx pos toks =
          lex_loop (ctx0\<lparr>msgs := msgs ctx0 @ (new @ [unexpected ctx0 pos])\<rparr>) (pos + 1) toks"
        using True err by (subst lex_loop_Error) (simp_all add: msg_def unexpected_def)
      have "lex_inv ctx0 (pos + 1) toks (new @ [unexpected ctx0 pos])"
        by (rule lex_inv_Error[OF less.prems True err])
      moreover have "length (content ctx0) - (pos + 1) < length (content ctx0) - pos"
        using True by simp
      ultimately show ?thesis using less.hyps step by simp
    next
      case tok: False
      let ?n = "snd (chooseTok (drop pos (content ctx0)))"
      let ?t = "\<lparr>tok_type = fst (chooseTok (drop pos (content ctx0))),
                tok_loc = \<lparr>loc_start = pos, loc_length = ?n, loc_file = filename ctx0\<rparr>\<rparr>"
      have step: "lex_loop ?ctx pos toks = lex_loop ?ctx (pos + ?n) (toks @ [?t])"
        using True tok by (subst lex_loop_token) simp_all
      have "lex_inv ctx0 (pos + ?n) (toks @ [?t]) new"
        by (rule lex_inv_token[OF less.prems True tok])
      moreover have "length (content ctx0) - (pos + ?n) < length (content ctx0) - pos"
        using True chooseTok_pos[of "drop pos (content ctx0)"] by simp
      ultimately show ?thesis using less.hyps step by simp
    qed
  qed
qed

lemma lex_ctx_inv:
  "\<exists>toks new pos.
     lex_ctx ctx = Some (toks, ctx\<lparr>step := Lex, msgs := msgs ctx @ new\<rparr>) \<and>
     length (content ctx) \<le> pos \<and> lex_inv ctx pos toks new"
proof -
  let ?c = "startStep ctx Lex"
  have "lex_inv ?c 0 [] []" by (rule lex_inv_init)
  from lex_loop_inv[OF this]
  obtain toks new pos where
    "lex_loop (?c\<lparr>msgs := msgs ?c @ []\<rparr>) 0 [] = Some (toks, ?c\<lparr>msgs := msgs ?c @ new\<rparr>)"
    "length (content ?c) \<le> pos" "lex_inv ?c pos toks new"
    by blast
  moreover have "lex_inv ?c pos toks new = lex_inv ctx pos toks new"
    by (simp add: lex_inv_def tok_ok_def msg_ok_def unexpected_def startStep_def)
  ultimately show ?thesis
    by (intro exI[of _ toks] exI[of _ new] exI[of _ pos]) (simp add: lex_ctx_def startStep_def)
qed

lemma matchesFrom_loop_takeWhile:
  "len \<le> length cont \<Longrightarrow>
   matchesFrom_loop chars cont len = len + length (takeWhile (\<lambda>c. c \<in> set chars) (drop len cont))"
proof (induction chars cont len rule: matchesFrom_loop.induct)
  case (1 chars cont len)
  show ?case
  proof (cases "len < length cont")
    case False
    then show ?thesis by (subst matchesFrom_loop.simps) simp
  next
    case True
    then have d: "drop len cont = cont ! len # drop (len + 1) cont"
      by (simp add: Cons_nth_drop_Suc)
    show ?thesis
    proof (cases "cont ! len \<in> set chars")
      case False
      then show ?thesis using True d by (subst matchesFrom_loop.simps) simp
    next
      case in_chars: True
      have "matchesFrom_loop chars cont len = matchesFrom_loop chars cont (len + 1)"
        using True in_chars by (subst matchesFrom_loop.simps) simp
      also have "\<dots> = len + 1 + length (takeWhile (\<lambda>c. c \<in> set chars) (drop (len + 1) cont))"
        using "1.IH" True in_chars by simp
      finally show ?thesis using d in_chars by simp
    qed
  qed
qed

lemma matchesFrom_takeWhile:
  "matchesFrom chars cont = length (takeWhile (\<lambda>c. c \<in> set chars) cont)"
  by (simp add: matchesFrom_def matchesFrom_loop_takeWhile)

lemma consumeWhiteSpace_other:
  "c \<notin> set whiteSpace \<Longrightarrow> c \<noteq> CHR ''/'' \<Longrightarrow> c \<noteq> CHR ''#'' \<Longrightarrow> consumeWhiteSpace (c # cs) = 0"
  unfolding consumeWhiteSpace_def by (subst consumeWhiteSpace_loop.simps) (simp add: Let_def)

lemma consumeStringLiteral_other:
  "c \<notin> set quotes \<Longrightarrow> consumeStringLiteral (c # cs) = 0"
  by (simp add: consumeStringLiteral_def)

lemma matchLiteral_other:
  "c \<notin> set ''(){}[];-|,'' \<Longrightarrow> matchLiteral matchToken (c # cs) = None"
  by (auto simp: matchToken_def)

lemma chooseTok_digit:
  assumes "c \<in> set nums"
  shows "chooseTok (c # cs) = (NumberLiteral, length (takeWhile (\<lambda>c. c \<in> set numberChar) (c # cs)))"
proof -
  have 1: "matchLiteral matchToken (c # cs) = None"
    using assms by (intro matchLiteral_other) (auto simp: nums_def)
  have 2: "consumeStringLiteral (c # cs) = 0"
    using assms by (intro consumeStringLiteral_other) (auto simp: nums_def quotes_def)
  have 3: "consumeWhiteSpace (c # cs) = 0"
    using assms by (intro consumeWhiteSpace_other) (auto simp: nums_def whiteSpace_def)
  have 4: "matchesFrom operatorChar (c # cs) = 0"
    using assms by (auto simp: matchesFrom_takeWhile nums_def operatorChar_def)
  have 5: "c \<in> set numberChar"
    using assms by (simp add: numberChar_def)
  show ?thesis
    using 1 2 3 4 5 by (simp add: chooseTok_def matchesFrom_takeWhile)
qed

lemma chooseTok_dot:
  "chooseTok (CHR ''.'' # cs) = (Operator, length (takeWhile (\<lambda>c. c \<in> set operatorChar) (CHR ''.'' # cs)))"
proof -
  have 1: "matchLiteral matchToken (CHR ''.'' # cs) = None"
    by (intro matchLiteral_other) simp
  have 2: "consumeStringLiteral (CHR ''.'' # cs) = 0"
    by (intro consumeStringLiteral_other) (simp add: quotes_def)
  have 3: "consumeWhiteSpace (CHR ''.'' # cs) = 0"
    by (intro consumeWhiteSpace_other) (simp_all add: whiteSpace_def)
  have 5: "CHR ''.'' \<in> set operatorChar"
    by (simp add: operatorChar_def)
  show ?thesis
    using 1 2 3 5 by (simp add: chooseTok_def matchesFrom_takeWhile)
qed

lemma scanLine_append:
  "CHR 0x0A \<notin> set line \<Longrightarrow> rest = [] \<or> hd rest = CHR 0x0A \<Longrightarrow>
   scanLine (pre @ line @ rest) (length pre) = length pre + length line"
proof (induction line arbitrary: pre)
  case Nil
  then show ?case
    by (subst scanLine.simps) (auto simp: nth_append hd_conv_nth)
next
  case (Cons c l)
  have "scanLine (pre @ (c # l) @ rest) (length pre) = scanLine ((pre @ [c]) @ l @ rest) (length (pre @ [c]))"
    using Cons.prems by (subst scanLine.simps) (auto simp: nth_append)
  also have "\<dots> = length (pre @ [c]) + length l"
    using Cons.prems by (intro Cons.IH) simp_all
  finally show ?case by simp
qed

lemma scanBlock_append:
  "pre \<noteq> [] \<Longrightarrow>
   \<forall>k < length body. \<not> (body ! k = CHR ''/'' \<and> (last pre # body) ! k = CHR ''*'') \<Longrightarrow>
   scanBlock (pre @ body @ ''*/'' @ rest) (length pre) = length pre + length body + 1"
proof (induction body arbitrary: pre)
  case Nil
  have "scanBlock (pre @ ''*/'' @ rest) (length pre) = scanBlock (pre @ ''*/'' @ rest) (length pre + 1)"
    by (subst scanBlock.simps) (simp add: nth_append)
  also have "\<dots> = length pre + 1"
    by (subst scanBlock.simps) (simp add: nth_append)
  finally show ?case by simp
next
  case (Cons c b)
  have l: "(pre @ (c # b) @ ''*/'' @ rest) ! (length pre - 1) = last pre"
    using Cons.prems(1) by (simp add: nth_append last_conv_nth)
  have n: "\<not> (c = CHR ''/'' \<and> last pre = CHR ''*'')"
    using Cons.prems(2) by auto
  have "scanBlock (pre @ (c # b) @ ''*/'' @ rest) (length pre) =
        scanBlock ((pre @ [c]) @ b @ ''*/'' @ rest) (length (pre @ [c]))"
    using n l by (subst scanBlock.simps) (auto simp: nth_append)
  also have "\<dots> = length (pre @ [c]) + length b + 1"
  proof (intro Cons.IH)
    show "pre @ [c] \<noteq> []" by simp
    show "\<forall>k < length b. \<not> (b ! k = CHR ''/'' \<and> (last (pre @ [c]) # b) ! k = CHR ''*'')"
    proof (intro allI impI)
      fix k assume "k < length b"
      then have "\<not> ((c # b) ! Suc k = CHR ''/'' \<and> (last pre # c # b) ! Suc k = CHR ''*'')"
        using Cons.prems(2) by (metis Suc_less_eq length_Cons)
      then show "\<not> (b ! k = CHR ''/'' \<and> (last (pre @ [c]) # b) ! k = CHR ''*'')" by simp
    qed
  qed
  finally show ?case by simp
qed

lemma consumeWhiteSpace_loop_skip:
  "set ws \<subseteq> set whiteSpace \<Longrightarrow>
   consumeWhiteSpace_loop (pre @ ws @ tail) (length pre) =
   consumeWhiteSpace_loop (pre @ ws @ tail) (length pre + length ws)"
proof (induction ws arbitrary: pre)
  case Nil
  show ?case by simp
next
  case (Cons c w)
  have "consumeWhiteSpace_loop (pre @ (c # w) @ tail) (length pre) =
        consumeWhiteSpace_loop ((pre @ [c]) @ w @ tail) (length (pre @ [c]))"
    using Cons.prems by (subst consumeWhiteSpace_loop.simps) (simp add: nth_append)
  also have "\<dots> = consumeWhiteSpace_loop ((pre @ [c]) @ w @ tail) (length (pre @ [c]) + length w)"
    using Cons.prems by (intro Cons.IH) simp
  finally show ?case by simp
qed

lemma consumeWhiteSpace_skip:
  "set ws \<subseteq> set whiteSpace \<Longrightarrow>
   consumeWhiteSpace (ws @ tail) = consumeWhiteSpace_loop (ws @ tail) (length ws)"
  using consumeWhiteSpace_loop_skip[of ws "[]" tail] by (simp add: consumeWhiteSpace_def)

lemma chooseTok_whitespace:
  assumes "matchLiteral matchToken cont = None" and "consumeStringLiteral cont = 0"
    and "consumeWhiteSpace cont = n" and "0 < n"
  shows "chooseTok cont = (WhiteSpace, n)"
  using assms by (simp add: chooseTok_def)

lemma whiteSpace_not_literal:
  "c \<in> set whiteSpace \<or> c = CHR ''#'' \<or> c = CHR ''/'' \<Longrightarrow>
   matchLiteral matchToken (c # cs) = None \<and> consumeStringLiteral (c # cs) = 0"
  by (intro conjI matchLiteral_other consumeStringLiteral_other) (auto simp: whiteSpace_def quotes_def)

lemma hd_ws_append:
  assumes "set ws \<subseteq> set whiteSpace" and "c \<in> set whiteSpace \<or> c = CHR ''#'' \<or> c = CHR ''/''"
  shows "matchLiteral matchToken (ws @ c # cs) = None \<and> consumeStringLiteral (ws @ c # cs) = 0"
proof (cases ws)
  case Nil
  then show ?thesis using whiteSpace_not_literal[OF assms(2)] by simp
next
  case (Cons w ws')
  then have "w \<in> set whiteSpace" using assms(1) by simp
  then show ?thesis using whiteSpace_not_literal[of w "ws' @ c # cs"] Cons by simp
qed

lemma loop_end: "\<not> loc < length cont \<Longrightarrow> consumeWhiteSpace_loop cont loc = loc"
  by (subst consumeWhiteSpace_loop.simps) simp

lemma loop_stop:
  "loc < length cont \<Longrightarrow> cont ! loc \<notin> set whiteSpace \<Longrightarrow> cont ! loc \<noteq> CHR ''#'' \<Longrightarrow>
   cont ! loc = CHR ''/'' \<longrightarrow>
     \<not> (loc + 1 < length cont \<and> (cont ! (loc + 1) = CHR ''*'' \<or> cont ! (loc + 1) = CHR ''/'')) \<Longrightarrow>
   consumeWhiteSpace_loop cont loc = loc"
  by (subst consumeWhiteSpace_loop.simps) (auto simp: Let_def)

lemma loop_hash:
  "loc < length cont \<Longrightarrow> cont ! loc = CHR ''#'' \<Longrightarrow>
   consumeWhiteSpace_loop cont loc = scanLine cont (loc + 1)"
  by (subst consumeWhiteSpace_loop.simps) (simp add: Let_def whiteSpace_def)

lemma loop_slashes:
  "loc + 1 < length cont \<Longrightarrow> cont ! loc = CHR ''/'' \<Longrightarrow> cont ! (loc + 1) = CHR ''/'' \<Longrightarrow>
   consumeWhiteSpace_loop cont loc = scanLine cont (loc + 1)"
  by (subst consumeWhiteSpace_loop.simps) (simp add: Let_def whiteSpace_def)

lemma loop_block:
  "loc + 1 < length cont \<Longrightarrow> cont ! loc = CHR ''/'' \<Longrightarrow> cont ! (loc + 1) = CHR ''*'' \<Longrightarrow>
   scanBlock cont (loc + 1 + 1) = e \<Longrightarrow>
   \<not> (e + 1 + 1 < length cont \<and> cont ! (e + 1 + 1) = CHR ''/'') \<Longrightarrow>
   consumeWhiteSpace_loop cont loc = e + 1"
  by (subst consumeWhiteSpace_loop.simps) (auto simp: Let_def whiteSpace_def)

lemma run_only:
  assumes ws: "set ws \<subseteq> set whiteSpace" "ws \<noteq> []"
    and rest: "rest = [] \<or> hd rest \<notin> set whiteSpace"
    and nc: "take 1 rest \<noteq> ''#''" "take 2 rest \<noteq> ''//''" "take 2 rest \<noteq> ''/*''"
  shows "chooseTok (ws @ rest) = (WhiteSpace, length ws)"
proof -
  have "consumeWhiteSpace_loop (ws @ rest) (length ws) = length ws"
  proof (cases rest)
    case Nil
    then show ?thesis by (simp add: loop_end)
  next
    case (Cons c cs)
    have c: "c \<notin> set whiteSpace" "c \<noteq> CHR ''#''"
      using rest nc(1) Cons by auto
    have d: "c = CHR ''/'' \<longrightarrow> \<not> (cs \<noteq> [] \<and> (hd cs = CHR ''*'' \<or> hd cs = CHR ''/''))"
      using nc(2,3) Cons by (cases cs) auto
    have n: "(ws @ c # cs) ! length ws = c" by simp
    have n1: "length ws + 1 < length (ws @ c # cs) \<Longrightarrow> (ws @ c # cs) ! (length ws + 1) = hd cs"
      by (cases cs) (simp_all add: nth_append)
    have l: "length ws + 1 < length (ws @ c # cs) \<longleftrightarrow> cs \<noteq> []" by auto
    have "consumeWhiteSpace_loop (ws @ c # cs) (length ws) = length ws"
    proof (rule loop_stop)
      show "length ws < length (ws @ c # cs)" by simp
      show "(ws @ c # cs) ! length ws \<notin> set whiteSpace" using c(1) n by simp
      show "(ws @ c # cs) ! length ws \<noteq> CHR ''#''" using c(2) n by simp
      show "(ws @ c # cs) ! length ws = CHR ''/'' \<longrightarrow>
        \<not> (length ws + 1 < length (ws @ c # cs) \<and>
           ((ws @ c # cs) ! (length ws + 1) = CHR ''*'' \<or> (ws @ c # cs) ! (length ws + 1) = CHR ''/''))"
        using d n n1 l by metis
    qed
    then show ?thesis using Cons by simp
  qed
  then have len: "consumeWhiteSpace (ws @ rest) = length ws"
    using consumeWhiteSpace_skip[OF ws(1), of rest] by simp
  obtain w ws' where w: "ws = w # ws'" using ws(2) by (cases ws) auto
  then have "w \<in> set whiteSpace" using ws(1) by simp
  then have "matchLiteral matchToken (ws @ rest) = None \<and> consumeStringLiteral (ws @ rest) = 0"
    using whiteSpace_not_literal[of w "ws' @ rest"] w by simp
  then show ?thesis
    using len ws(2) by (intro chooseTok_whitespace) simp_all
qed

lemma run_hash:
  assumes ws: "set ws \<subseteq> set whiteSpace"
    and line: "CHR 0x0A \<notin> set line" "rest = [] \<or> hd rest = CHR 0x0A"
  shows "chooseTok (ws @ ''#'' @ line @ rest) = (WhiteSpace, length ws + 1 + length line)"
proof -
  let ?cont = "ws @ ''#'' @ line @ rest"
  have "consumeWhiteSpace_loop ?cont (length ws) = scanLine ?cont (length ws + 1)"
    by (rule loop_hash) simp_all
  also have "\<dots> = scanLine ((ws @ ''#'') @ line @ rest) (length (ws @ ''#''))" by simp
  also have "\<dots> = length (ws @ ''#'') + length line"
    by (rule scanLine_append[OF line])
  finally have len: "consumeWhiteSpace ?cont = length ws + 1 + length line"
    using consumeWhiteSpace_skip[OF ws, of "''#'' @ line @ rest"] by simp
  have "matchLiteral matchToken ?cont = None \<and> consumeStringLiteral ?cont = 0"
    using hd_ws_append[OF ws, of "CHR ''#''" "line @ rest"] by simp
  then show ?thesis
    using len by (intro chooseTok_whitespace) simp_all
qed

lemma run_slashes:
  assumes ws: "set ws \<subseteq> set whiteSpace"
    and line: "CHR 0x0A \<notin> set line" "rest = [] \<or> hd rest = CHR 0x0A"
  shows "chooseTok (ws @ ''//'' @ line @ rest) = (WhiteSpace, length ws + 2 + length line)"
proof -
  let ?cont = "ws @ ''//'' @ line @ rest"
  have l: "CHR 0x0A \<notin> set (''/'' @ line)" using line(1) by simp
  have "consumeWhiteSpace_loop ?cont (length ws) = scanLine ?cont (length ws + 1)"
    by (rule loop_slashes) (simp_all add: nth_append)
  also have "\<dots> = scanLine ((ws @ ''/'') @ (''/'' @ line) @ rest) (length (ws @ ''/''))" by simp
  also have "\<dots> = length (ws @ ''/'') + length (''/'' @ line)"
    by (rule scanLine_append[OF l line(2)])
  finally have len: "consumeWhiteSpace ?cont = length ws + 2 + length line"
    using consumeWhiteSpace_skip[OF ws, of "''//'' @ line @ rest"] by simp
  have "matchLiteral matchToken ?cont = None \<and> consumeStringLiteral ?cont = 0"
    using hd_ws_append[OF ws, of "CHR ''/''" "''/'' @ line @ rest"] by simp
  then show ?thesis
    using len by (intro chooseTok_whitespace) simp_all
qed

lemma run_block:
  assumes ws: "set ws \<subseteq> set whiteSpace"
    and body: "\<forall>k < length body. \<not> (body ! k = CHR ''/'' \<and> (CHR ''*'' # body) ! k = CHR ''*'')"
    and rest: "length rest < 2 \<or> rest ! 1 \<noteq> CHR ''/''"
  shows "chooseTok (ws @ ''/*'' @ body @ ''*/'' @ rest) = (WhiteSpace, length ws + length body + 4)"
proof -
  let ?cont = "ws @ ''/*'' @ body @ ''*/'' @ rest"
  have b: "\<forall>k < length body. \<not> (body ! k = CHR ''/'' \<and> (last (ws @ ''/*'') # body) ! k = CHR ''*'')"
    using body by simp
  have "scanBlock ((ws @ ''/*'') @ body @ ''*/'' @ rest) (length (ws @ ''/*'')) =
        length (ws @ ''/*'') + length body + 1"
    by (rule scanBlock_append[OF _ b]) simp
  then have sb: "scanBlock ?cont (length ws + 1 + 1) = length ws + length body + 3"
    by simp
  have e: "?cont = (ws @ ''/*'' @ body @ ''*/'') @ rest" by simp
  have r: "\<not> (length ws + length body + 3 + 1 + 1 < length ?cont \<and>
              ?cont ! (length ws + length body + 3 + 1 + 1) = CHR ''/'')"
  proof -
    have "?cont ! (length ws + length body + 3 + 1 + 1) = rest ! 1"
      by (subst e, subst nth_append) simp
    moreover have "length ws + length body + 3 + 1 + 1 < length ?cont \<longleftrightarrow> \<not> length rest < 2"
      by auto
    ultimately show ?thesis using rest by metis
  qed
  have "consumeWhiteSpace_loop ?cont (length ws) = length ws + length body + 3 + 1"
    by (rule loop_block[OF _ _ _ sb r]) (simp_all add: nth_append)
  then have len: "consumeWhiteSpace ?cont = length ws + length body + 4"
    using consumeWhiteSpace_skip[OF ws, of "''/*'' @ body @ ''*/'' @ rest"] by simp
  have "matchLiteral matchToken ?cont = None \<and> consumeStringLiteral ?cont = 0"
    using hd_ws_append[OF ws, of "CHR ''/''" "''*'' @ body @ ''*/'' @ rest"] by simp
  then show ?thesis
    using len by (intro chooseTok_whitespace) simp_all
qed

section \<open>Termination and order of the tokens\<close>

text \<open>
  C9: for every text, and so for every non-empty suffix of a source, \<open>chooseTok\<close> returns a
  length of at least 1. Therefore \<open>lex\<close> returns on every source text, none of the messages
  it appends is the \<open>InternalError\<close> message "Illegal empty token", and every iteration of
  the loop below the end of the text continues at a strictly larger scan position.
\<close>

theorem lex_terminates:
  "(cont \<noteq> [] \<longrightarrow> 1 \<le> snd (chooseTok cont)) \<and>
   (\<exists>toks new. lex_ctx ctx = Some (toks, ctx\<lparr>step := Lex, msgs := msgs ctx @ new\<rparr>) \<and>
      (\<forall>m \<in> set new. msg_type m \<noteq> InternalError \<and> msg_text m \<noteq> ''Illegal empty token'')) \<and>
   (pos < length (content ctx) \<longrightarrow>
      (\<exists>ctx' toks'. lex_loop ctx pos toks =
          lex_loop ctx' (pos + snd (chooseTok (drop pos (content ctx)))) toks' \<and>
          pos < pos + snd (chooseTok (drop pos (content ctx)))))"
proof (intro conjI impI)
  show "1 \<le> snd (chooseTok cont)"
    using chooseTok_pos[of cont] by simp
next
  obtain toks new pos' where r: "lex_ctx ctx = Some (toks, ctx\<lparr>step := Lex, msgs := msgs ctx @ new\<rparr>)"
    and inv: "lex_inv ctx pos' toks new"
    using lex_ctx_inv[of ctx] by blast
  have "msg_type m \<noteq> InternalError \<and> msg_text m \<noteq> ''Illegal empty token''" if "m \<in> set new" for m
  proof -
    have "m = unexpected ctx (loc_start (msg_loc m))"
      using inv that by (simp add: lex_inv_def msg_ok_def)
    then have "msg_type m = MsgError" "msg_text m = ''Unexpected character''"
      by (metis unexpected_def Message.select_convs(2), metis unexpected_def Message.select_convs(3))
    then show ?thesis by simp
  qed
  with r show "\<exists>toks new. lex_ctx ctx = Some (toks, ctx\<lparr>step := Lex, msgs := msgs ctx @ new\<rparr>) \<and>
      (\<forall>m \<in> set new. msg_type m \<noteq> InternalError \<and> msg_text m \<noteq> ''Illegal empty token'')"
    by blast
next
  assume p: "pos < length (content ctx)"
  let ?n = "snd (chooseTok (drop pos (content ctx)))"
  have n: "pos < pos + ?n" using chooseTok_pos[of "drop pos (content ctx)"] by simp
  show "\<exists>ctx' toks'. lex_loop ctx pos toks = lex_loop ctx' (pos + ?n) toks' \<and> pos < pos + ?n"
  proof (cases "fst (chooseTok (drop pos (content ctx))) = Error")
    case True
    then have "?n = 1" by (rule chooseTok_Error)
    then show ?thesis using lex_loop_Error[OF p True, of toks] n by auto
  next
    case False
    then show ?thesis using lex_loop_token[OF p False, of toks] n by blast
  qed
qed

text \<open>
  The theorem at the one-byte text \<open>a\<close> and at the source \<open>a\<close> followed by the byte 1, which
  no rule matches.
\<close>

theorem lex_terminates_witness:
  "''a'' \<noteq> [] \<and> 1 \<le> snd (chooseTok ''a'') \<and>
   (\<exists>toks new.
      lex_ctx \<lparr>msgs = [], content = [CHR ''a'', CHR 0x01], filename = ''f'', step = Init, last_step = Final\<rparr> =
        Some (toks, \<lparr>msgs = [] @ new, content = [CHR ''a'', CHR 0x01], filename = ''f'', step = Lex, last_step = Final\<rparr>) \<and>
      (\<forall>m \<in> set new. msg_type m \<noteq> InternalError \<and> msg_text m \<noteq> ''Illegal empty token'')) \<and>
   (0::nat) < length [CHR ''a'', CHR 0x01] \<and>
   (0::nat) < 0 + snd (chooseTok (drop 0 [CHR ''a'', CHR 0x01]))"
  using lex_terminates [of "''a''"
      "\<lparr>msgs = [], content = [CHR ''a'', CHR 0x01], filename = ''f'', step = Init, last_step = Final\<rparr>" 0 "[]"]
  by simp

text \<open>
  C10: the tokens returned by \<open>lex\<close> are in strictly increasing order of start offset, and
  every token starts at or after the end (start plus length) of each token before it, so
  no two returned tokens overlap, also where bytes reported as errors lie between them.
\<close>

theorem lex_tokens_ordered:
  "\<exists>toks ctx'. lex_ctx ctx = Some (toks, ctx') \<and>
     sorted_wrt (\<lambda>a b. loc_start (tok_loc a) < loc_start (tok_loc b)) toks \<and>
     sorted_wrt (\<lambda>a b. loc_start (tok_loc a) + loc_length (tok_loc a) \<le> loc_start (tok_loc b)) toks"
proof -
  obtain toks new pos where r: "lex_ctx ctx = Some (toks, ctx\<lparr>step := Lex, msgs := msgs ctx @ new\<rparr>)"
    and inv: "lex_inv ctx pos toks new"
    using lex_ctx_inv[of ctx] by blast
  have s: "sorted_wrt (\<lambda>a b. loc_start a + loc_length a \<le> loc_start b) (map tok_loc toks)"
    and len: "\<forall>t \<in> set toks. 0 < loc_length (tok_loc t)"
    using inv by (simp_all add: lex_inv_def tok_ok_def)
  have s2: "sorted_wrt (\<lambda>a b. loc_start (tok_loc a) + loc_length (tok_loc a) \<le> loc_start (tok_loc b)) toks"
    using s by (simp add: sorted_wrt_map)
  have "sorted_wrt (\<lambda>a b. loc_start (tok_loc a) < loc_start (tok_loc b)) toks"
  proof (rule sorted_wrt_mono_rel[OF _ s2])
    fix a b assume "a \<in> set toks" "b \<in> set toks"
      and "loc_start (tok_loc a) + loc_length (tok_loc a) \<le> loc_start (tok_loc b)"
    then show "loc_start (tok_loc a) < loc_start (tok_loc b)" using len by fastforce
  qed
  with r s2 show ?thesis by blast
qed

text \<open>
  The theorem at the source \<open>a\<close>, byte 1, \<open>+1\<close>: the byte at offset 1 yields a message and
  no token, and the three tokens start at 0, 2 and 3.
\<close>

theorem lex_tokens_ordered_witness:
  "lex_ctx \<lparr>msgs = [], content = [CHR ''a'', CHR 0x01, CHR ''+'', CHR ''1''], filename = ''f'', step = Init, last_step = Final\<rparr> =
     Some ([\<lparr>tok_type = Symbol, tok_loc = \<lparr>loc_start = 0, loc_length = 1, loc_file = ''f''\<rparr>\<rparr>,
            \<lparr>tok_type = Operator, tok_loc = \<lparr>loc_start = 2, loc_length = 1, loc_file = ''f''\<rparr>\<rparr>,
            \<lparr>tok_type = NumberLiteral, tok_loc = \<lparr>loc_start = 3, loc_length = 1, loc_file = ''f''\<rparr>\<rparr>],
           \<lparr>msgs = [\<lparr>msg_loc = \<lparr>loc_start = 1, loc_length = 1, loc_file = ''f''\<rparr>, msg_type = MsgError,
                     msg_text = ''Unexpected character''\<rparr>],
            content = [CHR ''a'', CHR 0x01, CHR ''+'', CHR ''1''], filename = ''f'', step = Lex, last_step = Final\<rparr>) \<and>
   sorted_wrt (\<lambda>a b. loc_start (tok_loc a) < loc_start (tok_loc b))
     [\<lparr>tok_type = Symbol, tok_loc = \<lparr>loc_start = 0, loc_length = 1, loc_file = ''f''\<rparr>\<rparr>,
      \<lparr>tok_type = Operator, tok_loc = \<lparr>loc_start = 2, loc_length = 1, loc_file = ''f''\<rparr>\<rparr>,
      \<lparr>tok_type = NumberLiteral, tok_loc = \<lparr>loc_start = 3, loc_length = 1, loc_file = ''f''\<rparr>\<rparr>]"
proof -
  have e: "lex_ctx \<lparr>msgs = [], content = [CHR ''a'', CHR 0x01, CHR ''+'', CHR ''1''], filename = ''f'', step = Init, last_step = Final\<rparr> =
     Some ([\<lparr>tok_type = Symbol, tok_loc = \<lparr>loc_start = 0, loc_length = 1, loc_file = ''f''\<rparr>\<rparr>,
            \<lparr>tok_type = Operator, tok_loc = \<lparr>loc_start = 2, loc_length = 1, loc_file = ''f''\<rparr>\<rparr>,
            \<lparr>tok_type = NumberLiteral, tok_loc = \<lparr>loc_start = 3, loc_length = 1, loc_file = ''f''\<rparr>\<rparr>],
           \<lparr>msgs = [\<lparr>msg_loc = \<lparr>loc_start = 1, loc_length = 1, loc_file = ''f''\<rparr>, msg_type = MsgError,
                     msg_text = ''Unexpected character''\<rparr>],
            content = [CHR ''a'', CHR 0x01, CHR ''+'', CHR ''1''], filename = ''f'', step = Lex, last_step = Final\<rparr>)"
    by code_simp
  from lex_tokens_ordered [of "\<lparr>msgs = [], content = [CHR ''a'', CHR 0x01, CHR ''+'', CHR ''1''], filename = ''f'', step = Init, last_step = Final\<rparr>"]
  show ?thesis unfolding e by simp
qed

section \<open>Coverage of the source\<close>

text \<open>
  C1 as stated fails: a byte that no rule matches yields a message and no token, so the
  spans of the tokens leave a gap. In the source \<open>a\<close>, form feed, \<open>b\<close> the tokens are the
  two symbols at offsets 0 and 2, and the byte at offset 1 belongs to none.
\<close>

theorem tokens_partition_source_counterexample:
  "\<not> tokens_partition_source (test_ctx [CHR ''a'', CHR 0x0C, CHR ''b''])"
  by code_simp

text \<open>
  C1, amended: for every source text \<open>lex\<close> returns; the returned tokens lie one after the
  other without overlap; every token has a positive length, starts inside the text, names
  the file of the context, is not of kind \<open>Error\<close>, and its kind and length are what
  \<open>chooseTok\<close> chooses on the text from its start (the text of a token is the slice of the
  source its location names); the messages appended lie at strictly increasing offsets,
  and each is the "Unexpected character" error of length 1 at an offset inside the text
  where \<open>chooseTok\<close> answers \<open>Error\<close>, that is, at a byte that no rule matches; and every
  offset of the text lies either in the span of a returned token or is the offset of such
  a message, never both. Nothing is said here about where the last token ends.
\<close>

theorem lex_spans_cover:
  "\<exists>toks new.
     lex_ctx ctx = Some (toks, ctx\<lparr>step := Lex, msgs := msgs ctx @ new\<rparr>) \<and>
     sorted_wrt (\<lambda>a b. loc_start (tok_loc a) + loc_length (tok_loc a) \<le> loc_start (tok_loc b)) toks \<and>
     (\<forall>t \<in> set toks.
        tok_type t \<noteq> Error \<and> loc_file (tok_loc t) = filename ctx \<and>
        0 < loc_length (tok_loc t) \<and> loc_start (tok_loc t) < length (content ctx) \<and>
        chooseTok (drop (loc_start (tok_loc t)) (content ctx)) = (tok_type t, loc_length (tok_loc t))) \<and>
     sorted_wrt (\<lambda>a b. loc_start (msg_loc a) < loc_start (msg_loc b)) new \<and>
     (\<forall>m \<in> set new.
        msg_type m = MsgError \<and> msg_text m = ''Unexpected character'' \<and>
        loc_length (msg_loc m) = 1 \<and> loc_file (msg_loc m) = filename ctx \<and>
        loc_start (msg_loc m) < length (content ctx) \<and>
        chooseTok (drop (loc_start (msg_loc m)) (content ctx)) = (Error, 1)) \<and>
     (\<forall>p < length (content ctx).
        (\<exists>t \<in> set toks. loc_start (tok_loc t) \<le> p \<and> p < loc_start (tok_loc t) + loc_length (tok_loc t))
        \<noteq> (\<exists>m \<in> set new. loc_start (msg_loc m) = p))"
proof -
  obtain toks new pos where r: "lex_ctx ctx = Some (toks, ctx\<lparr>step := Lex, msgs := msgs ctx @ new\<rparr>)"
    and pos: "length (content ctx) \<le> pos"
    and inv: "lex_inv ctx pos toks new"
    using lex_ctx_inv[of ctx] by blast
  have a: "sorted_wrt (\<lambda>a b. loc_start (tok_loc a) + loc_length (tok_loc a) \<le> loc_start (tok_loc b)) toks"
    using inv by (simp add: lex_inv_def sorted_wrt_map)
  have b: "\<forall>t \<in> set toks.
        tok_type t \<noteq> Error \<and> loc_file (tok_loc t) = filename ctx \<and>
        0 < loc_length (tok_loc t) \<and> loc_start (tok_loc t) < length (content ctx) \<and>
        chooseTok (drop (loc_start (tok_loc t)) (content ctx)) = (tok_type t, loc_length (tok_loc t))"
    using inv by (simp add: lex_inv_def tok_ok_def)
  have c: "sorted_wrt (\<lambda>a b. loc_start (msg_loc a) < loc_start (msg_loc b)) new"
    using inv by (simp add: lex_inv_def)
  have d: "msg_type m = MsgError \<and> msg_text m = ''Unexpected character'' \<and>
        loc_length (msg_loc m) = 1 \<and> loc_file (msg_loc m) = filename ctx \<and>
        loc_start (msg_loc m) < length (content ctx) \<and>
        chooseTok (drop (loc_start (msg_loc m)) (content ctx)) = (Error, 1)"
    if "m \<in> set new" for m
  proof -
    have ok: "msg_ok ctx m"
      using inv that by (simp add: lex_inv_def)
    then have "m = unexpected ctx (loc_start (msg_loc m))"
      by (simp add: msg_ok_def)
    then obtain q where "m = unexpected ctx q" ..
    then have "msg_type m = MsgError \<and> msg_text m = ''Unexpected character'' \<and>
        loc_length (msg_loc m) = 1 \<and> loc_file (msg_loc m) = filename ctx"
      by (simp add: unexpected_def)
    moreover have "loc_start (msg_loc m) < length (content ctx) \<and>
        chooseTok (drop (loc_start (msg_loc m)) (content ctx)) = (Error, 1)"
      using ok by (simp add: msg_ok_def)
    ultimately show ?thesis by simp
  qed
  have e: "\<forall>p < length (content ctx).
        (\<exists>t \<in> set toks. loc_start (tok_loc t) \<le> p \<and> p < loc_start (tok_loc t) + loc_length (tok_loc t))
        \<noteq> (\<exists>m \<in> set new. loc_start (msg_loc m) = p)"
    using inv pos by (simp add: lex_inv_def in_span_def)
  from r a b c d e show ?thesis by blast
qed

text \<open>
  The theorem at the source \<open>a\<close>, form feed, \<open>b\<close>: offsets 0 and 2 lie in the two tokens,
  offset 1 is the offset of the message.
\<close>

theorem lex_spans_cover_witness:
  "lex_ctx (test_ctx [CHR ''a'', CHR 0x0C, CHR ''b'']) =
     Some ([token Symbol 0 1, token Symbol 2 1],
           (test_ctx [CHR ''a'', CHR 0x0C, CHR ''b''])
             \<lparr>step := Lex, msgs := [] @ [unexpected (test_ctx [CHR ''a'', CHR 0x0C, CHR ''b'']) 1]\<rparr>) \<and>
   chooseTok (drop 1 [CHR ''a'', CHR 0x0C, CHR ''b'']) = (Error, 1) \<and>
   tok_type (token Symbol 0 1) \<noteq> Error \<and> tok_type (token Symbol 2 1) \<noteq> Error \<and>
   ((\<exists>t \<in> set [token Symbol 0 1, token Symbol 2 1].
        loc_start (tok_loc t) \<le> 0 \<and> 0 < loc_start (tok_loc t) + loc_length (tok_loc t))
    \<noteq> (\<exists>m \<in> set [unexpected (test_ctx [CHR ''a'', CHR 0x0C, CHR ''b'']) 1]. loc_start (msg_loc m) = 0)) \<and>
   ((\<exists>t \<in> set [token Symbol 0 1, token Symbol 2 1].
        loc_start (tok_loc t) \<le> 1 \<and> 1 < loc_start (tok_loc t) + loc_length (tok_loc t))
    \<noteq> (\<exists>m \<in> set [unexpected (test_ctx [CHR ''a'', CHR 0x0C, CHR ''b'']) 1]. loc_start (msg_loc m) = 1)) \<and>
   ((\<exists>t \<in> set [token Symbol 0 1, token Symbol 2 1].
        loc_start (tok_loc t) \<le> 2 \<and> 2 < loc_start (tok_loc t) + loc_length (tok_loc t))
    \<noteq> (\<exists>m \<in> set [unexpected (test_ctx [CHR ''a'', CHR 0x0C, CHR ''b'']) 1]. loc_start (msg_loc m) = 2))"
proof -
  have e: "lex_ctx (test_ctx [CHR ''a'', CHR 0x0C, CHR ''b'']) =
     Some ([token Symbol 0 1, token Symbol 2 1],
           (test_ctx [CHR ''a'', CHR 0x0C, CHR ''b''])
             \<lparr>step := Lex, msgs := [] @ [unexpected (test_ctx [CHR ''a'', CHR 0x0C, CHR ''b'']) 1]\<rparr>)"
    by code_simp
  have m: "msgs (test_ctx [CHR ''a'', CHR 0x0C, CHR ''b'']) = []"
    "content (test_ctx [CHR ''a'', CHR 0x0C, CHR ''b'']) = [CHR ''a'', CHR 0x0C, CHR ''b'']"
    by (simp_all add: test_ctx_def)
  from lex_spans_cover [of "test_ctx [CHR ''a'', CHR 0x0C, CHR ''b'']"]
  obtain toks new where
    r: "lex_ctx (test_ctx [CHR ''a'', CHR 0x0C, CHR ''b'']) =
         Some (toks, (test_ctx [CHR ''a'', CHR 0x0C, CHR ''b''])\<lparr>step := Lex, msgs := [] @ new\<rparr>)"
    and c: "\<forall>p < length [CHR ''a'', CHR 0x0C, CHR ''b''].
        (\<exists>t \<in> set toks. loc_start (tok_loc t) \<le> p \<and> p < loc_start (tok_loc t) + loc_length (tok_loc t))
        \<noteq> (\<exists>m \<in> set new. loc_start (msg_loc m) = p)"
    and d: "\<forall>m \<in> set new. chooseTok (drop (loc_start (msg_loc m)) [CHR ''a'', CHR 0x0C, CHR ''b'']) = (Error, 1)"
    and k: "\<forall>t \<in> set toks. tok_type t \<noteq> Error"
    unfolding m by blast
  from r e have t: "toks = [token Symbol 0 1, token Symbol 2 1]"
    and n: "new = [unexpected (test_ctx [CHR ''a'', CHR 0x0C, CHR ''b'']) 1]"
    by (simp_all add: test_ctx_def)
  have l: "(0::nat) < length [CHR ''a'', CHR 0x0C, CHR ''b'']"
    "(1::nat) < length [CHR ''a'', CHR 0x0C, CHR ''b'']"
    "(2::nat) < length [CHR ''a'', CHR 0x0C, CHR ''b'']"
    by simp_all
  from c l(1) have c0: "(\<exists>t \<in> set toks. loc_start (tok_loc t) \<le> 0 \<and> 0 < loc_start (tok_loc t) + loc_length (tok_loc t))
        \<noteq> (\<exists>m \<in> set new. loc_start (msg_loc m) = 0)" by blast
  from c l(2) have c1: "(\<exists>t \<in> set toks. loc_start (tok_loc t) \<le> 1 \<and> 1 < loc_start (tok_loc t) + loc_length (tok_loc t))
        \<noteq> (\<exists>m \<in> set new. loc_start (msg_loc m) = 1)" by blast
  from c l(3) have c2: "(\<exists>t \<in> set toks. loc_start (tok_loc t) \<le> 2 \<and> 2 < loc_start (tok_loc t) + loc_length (tok_loc t))
        \<noteq> (\<exists>m \<in> set new. loc_start (msg_loc m) = 2)" by blast
  have d1: "chooseTok (drop 1 [CHR ''a'', CHR 0x0C, CHR ''b'']) = (Error, 1)"
    using d unfolding n by (simp add: unexpected_def)
  have k1: "tok_type (token Symbol 0 1) \<noteq> Error \<and> tok_type (token Symbol 2 1) \<noteq> Error"
    using k unfolding t by simp
  from e d1 k1 c0 c1 c2 show ?thesis unfolding t n by blast
qed

section \<open>String literals\<close>

text \<open>
  C2: the claim, and the test "a string literal with newlines" of the repository, expect
  the source \<open>'123\<close>, newline, \<open>'foo\<close> to give two \<open>StringLiteral\<close> tokens and two messages.
  \<open>consumeStringLiteral\<close> does not look at newlines and \<open>lex\<close> appends no message for a string
  literal: the result is one \<open>StringLiteral\<close> token of six bytes, that ends at the second
  quote, the \<open>Symbol\<close> token \<open>foo\<close>, and an empty log.
\<close>

theorem lex_newline_in_quote_eval:
  "lex_ctx (test_ctx ([CHR 0x27] @ ''123'' @ [CHR 0x0A, CHR 0x27] @ ''foo'')) =
     Some ([token StringLiteral 0 6, token Symbol 6 3],
           (test_ctx ([CHR 0x27] @ ''123'' @ [CHR 0x0A, CHR 0x27] @ ''foo''))\<lparr>step := Lex\<rparr>)"
  by code_simp

text \<open>
  C4: the source \<open>'foo\<close> ends inside a string literal. The token is a \<open>StringLiteral\<close>, as
  the claim says, but no message is appended: the log stays empty (the branch of
  \<open>consumeStringLiteral\<close> for this case holds only the remark that a warning is to be done).
\<close>

theorem lex_open_quote_at_end_eval:
  "lex_ctx (test_ctx ([CHR 0x27] @ ''foo'')) =
     Some ([token StringLiteral 0 4], (test_ctx ([CHR 0x27] @ ''foo''))\<lparr>step := Lex\<rparr>) \<and>
   msgs ((test_ctx ([CHR 0x27] @ ''foo''))\<lparr>step := Lex\<rparr>) = []"
  by code_simp

section \<open>Locations inside the source\<close>

text \<open>
  C3: the source \<open>/*\<close> ends inside a block comment. The increment after the inner loop of
  \<open>consumeWhiteSpace\<close> runs also when that loop stopped at the end of the text, so the
  \<open>WhiteSpace\<close> token has length 3 in a text of 2 bytes: start plus length exceeds the
  length of the source.
\<close>

theorem lex_open_block_comment_eval:
  "lex_ctx (test_ctx ''/*'') = Some ([token WhiteSpace 0 3], (test_ctx ''/*'')\<lparr>step := Lex\<rparr>) \<and>
   \<not> loc_start (tok_loc (token WhiteSpace 0 3)) + loc_length (tok_loc (token WhiteSpace 0 3))
       \<le> length (content (test_ctx ''/*''))"
  by code_simp

section \<open>Bytes that no rule matches\<close>

text \<open>
  C5 as stated fails: at a byte that no rule matches, \<open>lex\<close> appends the message and no
  token. For the source that is one form feed, \<open>chooseTok\<close> answers \<open>Error\<close> at offset 0 and
  the token sequence returned is empty.
\<close>

theorem error_byte_counterexample:
  "fst (chooseTok (drop 0 (content (test_ctx [CHR 0x0C])))) = Error \<and>
   lex_ctx (test_ctx [CHR 0x0C]) =
     Some ([], (test_ctx [CHR 0x0C])\<lparr>step := Lex, msgs := [unexpected (test_ctx [CHR 0x0C]) 0]\<rparr>)"
  by code_simp

text \<open>
  C5, amended: at every scan position where no rule matches (\<open>chooseTok\<close> answers \<open>Error\<close>),
  the loop consumes exactly one byte, appends no token, and appends one message of severity
  \<open>MsgError\<close> with the text "Unexpected character" at that byte; at every other scan
  position the span is not empty and is appended to the token sequence, whatever its kind
  (\<open>WhiteSpace\<close> included). So the tokens \<open>lex\<close> returns never have the kind \<open>Error\<close>, and
  every message it appends is such a message for a byte at which \<open>chooseTok\<close> answers
  \<open>Error\<close>.
\<close>

theorem lex_error_byte:
  "(pos < length (content ctx) \<and> fst (chooseTok (drop pos (content ctx))) = Error \<longrightarrow>
      snd (chooseTok (drop pos (content ctx))) = 1 \<and>
      lex_loop ctx pos toks =
        lex_loop
          (msg ctx \<lparr>loc_start = pos, loc_length = 1, loc_file = filename ctx\<rparr> MsgError ''Unexpected character'')
          (pos + 1) toks) \<and>
   (pos < length (content ctx) \<and> fst (chooseTok (drop pos (content ctx))) \<noteq> Error \<longrightarrow>
      0 < snd (chooseTok (drop pos (content ctx))) \<and>
      lex_loop ctx pos toks =
        lex_loop ctx (pos + snd (chooseTok (drop pos (content ctx))))
          (toks @ [\<lparr>tok_type = fst (chooseTok (drop pos (content ctx))),
                    tok_loc = \<lparr>loc_start = pos, loc_length = snd (chooseTok (drop pos (content ctx))),
                              loc_file = filename ctx\<rparr>\<rparr>])) \<and>
   (\<exists>toks' new.
      lex_ctx ctx = Some (toks', ctx\<lparr>step := Lex, msgs := msgs ctx @ new\<rparr>) \<and>
      (\<forall>t \<in> set toks'. tok_type t \<noteq> Error) \<and>
      (\<forall>m \<in> set new.
         m = unexpected ctx (loc_start (msg_loc m)) \<and>
         loc_start (msg_loc m) < length (content ctx) \<and>
         chooseTok (drop (loc_start (msg_loc m)) (content ctx)) = (Error, 1)))"
proof (intro conjI impI; (elim conjE)?)
  assume p: "pos < length (content ctx)" and e: "fst (chooseTok (drop pos (content ctx))) = Error"
  show "snd (chooseTok (drop pos (content ctx))) = 1" by (rule chooseTok_Error[OF e])
  show "lex_loop ctx pos toks =
        lex_loop
          (msg ctx \<lparr>loc_start = pos, loc_length = 1, loc_file = filename ctx\<rparr> MsgError ''Unexpected character'')
          (pos + 1) toks"
    by (rule lex_loop_Error[OF p e])
next
  assume p: "pos < length (content ctx)" and e: "fst (chooseTok (drop pos (content ctx))) \<noteq> Error"
  show "0 < snd (chooseTok (drop pos (content ctx)))" by (rule chooseTok_pos)
  show "lex_loop ctx pos toks =
        lex_loop ctx (pos + snd (chooseTok (drop pos (content ctx))))
          (toks @ [\<lparr>tok_type = fst (chooseTok (drop pos (content ctx))),
                    tok_loc = \<lparr>loc_start = pos, loc_length = snd (chooseTok (drop pos (content ctx))),
                              loc_file = filename ctx\<rparr>\<rparr>])"
    by (rule lex_loop_token[OF p e])
next
  obtain toks' new pos' where r: "lex_ctx ctx = Some (toks', ctx\<lparr>step := Lex, msgs := msgs ctx @ new\<rparr>)"
    and inv: "lex_inv ctx pos' toks' new"
    using lex_ctx_inv[of ctx] by blast
  have a: "\<forall>t \<in> set toks'. tok_type t \<noteq> Error"
    using inv by (simp add: lex_inv_def tok_ok_def)
  have b: "\<forall>m \<in> set new.
         m = unexpected ctx (loc_start (msg_loc m)) \<and>
         loc_start (msg_loc m) < length (content ctx) \<and>
         chooseTok (drop (loc_start (msg_loc m)) (content ctx)) = (Error, 1)"
    using inv by (simp add: lex_inv_def msg_ok_def)
  from r a b show "\<exists>toks' new.
      lex_ctx ctx = Some (toks', ctx\<lparr>step := Lex, msgs := msgs ctx @ new\<rparr>) \<and>
      (\<forall>t \<in> set toks'. tok_type t \<noteq> Error) \<and>
      (\<forall>m \<in> set new.
         m = unexpected ctx (loc_start (msg_loc m)) \<and>
         loc_start (msg_loc m) < length (content ctx) \<and>
         chooseTok (drop (loc_start (msg_loc m)) (content ctx)) = (Error, 1))"
    by blast
qed

text \<open>
  The theorem at the source space, form feed, \<open>b\<close>: position 1 is a byte no rule matches,
  position 0 starts a \<open>WhiteSpace\<close> token.
\<close>

theorem lex_error_byte_witness:
  "(1::nat) < length (content (test_ctx [CHR '' '', CHR 0x0C, CHR ''b''])) \<and>
   fst (chooseTok (drop 1 (content (test_ctx [CHR '' '', CHR 0x0C, CHR ''b''])))) = Error \<and>
   lex_loop (test_ctx [CHR '' '', CHR 0x0C, CHR ''b'']) 1 [token WhiteSpace 0 1] =
     lex_loop
       (msg (test_ctx [CHR '' '', CHR 0x0C, CHR ''b''])
          \<lparr>loc_start = 1, loc_length = 1, loc_file = filename (test_ctx [CHR '' '', CHR 0x0C, CHR ''b''])\<rparr>
          MsgError ''Unexpected character'')
       (1 + 1) [token WhiteSpace 0 1] \<and>
   (0::nat) < length (content (test_ctx [CHR '' '', CHR 0x0C, CHR ''b''])) \<and>
   chooseTok (drop 0 (content (test_ctx [CHR '' '', CHR 0x0C, CHR ''b'']))) = (WhiteSpace, 1) \<and>
   lex_loop (test_ctx [CHR '' '', CHR 0x0C, CHR ''b'']) 0 [] =
     lex_loop (test_ctx [CHR '' '', CHR 0x0C, CHR ''b'']) (0 + 1)
       ([] @ [\<lparr>tok_type = WhiteSpace,
                tok_loc = \<lparr>loc_start = 0, loc_length = 1,
                          loc_file = filename (test_ctx [CHR '' '', CHR 0x0C, CHR ''b''])\<rparr>\<rparr>]) \<and>
   lex_ctx (test_ctx [CHR '' '', CHR 0x0C, CHR ''b'']) =
     Some ([token WhiteSpace 0 1, token Symbol 2 1],
           (test_ctx [CHR '' '', CHR 0x0C, CHR ''b''])
             \<lparr>step := Lex, msgs := [unexpected (test_ctx [CHR '' '', CHR 0x0C, CHR ''b'']) 1]\<rparr>)"
proof -
  let ?c = "test_ctx [CHR '' '', CHR 0x0C, CHR ''b'']"
  have e1: "chooseTok (drop 1 (content ?c)) = (Error, 1)"
    by code_simp
  have e0: "chooseTok (drop 0 (content ?c)) = (WhiteSpace, 1)"
    by code_simp
  have l: "(1::nat) < length (content ?c)" "(0::nat) < length (content ?c)"
    by (simp_all add: test_ctx_def)
  have r: "lex_ctx ?c =
     Some ([token WhiteSpace 0 1, token Symbol 2 1],
           ?c\<lparr>step := Lex, msgs := [unexpected ?c 1]\<rparr>)"
    by code_simp
  have h1: "1 < length (content ?c) \<and> fst (chooseTok (drop 1 (content ?c))) = Error"
    using l e1 by simp
  have h0: "0 < length (content ?c) \<and> fst (chooseTok (drop 0 (content ?c))) \<noteq> Error"
    using l e0 by simp
  have s1: "lex_loop ?c 1 [token WhiteSpace 0 1] =
     lex_loop (msg ?c \<lparr>loc_start = 1, loc_length = 1, loc_file = filename ?c\<rparr> MsgError ''Unexpected character'')
       (1 + 1) [token WhiteSpace 0 1]"
    using lex_error_byte [of 1 ?c "[token WhiteSpace 0 1]"] h1 by blast
  have "lex_loop ?c 0 [] =
     lex_loop ?c (0 + snd (chooseTok (drop 0 (content ?c))))
       ([] @ [\<lparr>tok_type = fst (chooseTok (drop 0 (content ?c))),
                tok_loc = \<lparr>loc_start = 0, loc_length = snd (chooseTok (drop 0 (content ?c))),
                          loc_file = filename ?c\<rparr>\<rparr>])"
    using lex_error_byte [of 0 ?c "[]"] h0 by blast
  then have s0: "lex_loop ?c 0 [] =
     lex_loop ?c (0 + 1)
       ([] @ [\<lparr>tok_type = WhiteSpace,
                tok_loc = \<lparr>loc_start = 0, loc_length = 1, loc_file = filename ?c\<rparr>\<rparr>])"
    unfolding e0 fst_conv snd_conv .
  from l h1 e0 s1 s0 r show ?thesis by blast
qed

section \<open>Whitespace and comments\<close>

text \<open>
  C7 as stated fails: the loop of \<open>consumeWhiteSpace\<close> is left after the first comment, so
  a region that goes on after a comment is split. The source \<open>/**/\<close> followed by a space
  is one region and gives two \<open>WhiteSpace\<close> tokens, and so does the line comment \<open>//x\<close>
  followed by its newline.
\<close>

theorem whitespace_region_counterexample:
  "lex_ctx (test_ctx ''/**/ '') =
     Some ([token WhiteSpace 0 4, token WhiteSpace 4 1], (test_ctx ''/**/ '')\<lparr>step := Lex\<rparr>) \<and>
   lex_ctx (test_ctx (''//x'' @ [CHR 0x0A])) =
     Some ([token WhiteSpace 0 3, token WhiteSpace 3 1], (test_ctx (''//x'' @ [CHR 0x0A]))\<lparr>step := Lex\<rparr>)"
  by code_simp

text \<open>
  C7, amended: a maximal run of whitespace characters (space, tab, newline, carriage
  return) is emitted as one \<open>WhiteSpace\<close> token, together with at most one comment that
  directly follows it. The token is the run alone when what follows is not a comment; the
  run, which may be empty, and a comment opened by \<open>#\<close> or \<open>//\<close> up to, not including, the
  next newline or the end of the text; the run, which may be empty, and a block comment up
  to and including its closing \<open>*/\<close> (for a body in which no \<open>/\<close> directly follows
  a \<open>*\<close>, the \<open>*\<close> of the opening included, and when the second byte after the comment is
  not \<open>/\<close>). The token ends there, whatever follows: whitespace or a further comment
  after a comment begins a new \<open>WhiteSpace\<close> token. The loop of \<open>lex\<close> appends the token
  so chosen.
\<close>

theorem whitespace_run_token:
  "(set ws \<subseteq> set whiteSpace \<and> ws \<noteq> [] \<and> (rest = [] \<or> hd rest \<notin> set whiteSpace) \<and>
    take 1 rest \<noteq> ''#'' \<and> take 2 rest \<noteq> ''//'' \<and> take 2 rest \<noteq> ''/*'' \<longrightarrow>
      chooseTok (ws @ rest) = (WhiteSpace, length ws)) \<and>
   (set ws \<subseteq> set whiteSpace \<and> CHR 0x0A \<notin> set line \<and> (rest = [] \<or> hd rest = CHR 0x0A) \<longrightarrow>
      chooseTok (ws @ ''#'' @ line @ rest) = (WhiteSpace, length ws + 1 + length line) \<and>
      chooseTok (ws @ ''//'' @ line @ rest) = (WhiteSpace, length ws + 2 + length line)) \<and>
   (set ws \<subseteq> set whiteSpace \<and>
    (\<forall>k < length body. \<not> (body ! k = CHR ''/'' \<and> (CHR ''*'' # body) ! k = CHR ''*'')) \<and>
    (length rest < 2 \<or> rest ! 1 \<noteq> CHR ''/'') \<longrightarrow>
      chooseTok (ws @ ''/*'' @ body @ ''*/'' @ rest) = (WhiteSpace, length ws + length body + 4)) \<and>
   (pos < length (content ctx) \<and> chooseTok (drop pos (content ctx)) = (WhiteSpace, n) \<longrightarrow>
      lex_loop ctx pos toks =
        lex_loop ctx (pos + n)
          (toks @ [\<lparr>tok_type = WhiteSpace,
                    tok_loc = \<lparr>loc_start = pos, loc_length = n, loc_file = filename ctx\<rparr>\<rparr>]))"
proof (intro conjI impI; elim conjE)
  assume "set ws \<subseteq> set whiteSpace" "ws \<noteq> []" "rest = [] \<or> hd rest \<notin> set whiteSpace"
    "take 1 rest \<noteq> ''#''" "take 2 rest \<noteq> ''//''" "take 2 rest \<noteq> ''/*''"
  then show "chooseTok (ws @ rest) = (WhiteSpace, length ws)" by (rule run_only)
next
  assume "set ws \<subseteq> set whiteSpace" "CHR 0x0A \<notin> set line" "rest = [] \<or> hd rest = CHR 0x0A"
  then show "chooseTok (ws @ ''#'' @ line @ rest) = (WhiteSpace, length ws + 1 + length line)"
    by (rule run_hash)
next
  assume "set ws \<subseteq> set whiteSpace" "CHR 0x0A \<notin> set line" "rest = [] \<or> hd rest = CHR 0x0A"
  then show "chooseTok (ws @ ''//'' @ line @ rest) = (WhiteSpace, length ws + 2 + length line)"
    by (rule run_slashes)
next
  assume "set ws \<subseteq> set whiteSpace"
    "\<forall>k < length body. \<not> (body ! k = CHR ''/'' \<and> (CHR ''*'' # body) ! k = CHR ''*'')"
    "length rest < 2 \<or> rest ! 1 \<noteq> CHR ''/''"
  then show "chooseTok (ws @ ''/*'' @ body @ ''*/'' @ rest) = (WhiteSpace, length ws + length body + 4)"
    by (rule run_block)
next
  assume p: "pos < length (content ctx)" and c: "chooseTok (drop pos (content ctx)) = (WhiteSpace, n)"
  have "fst (chooseTok (drop pos (content ctx))) \<noteq> Error" using c by simp
  from lex_loop_token[OF p this, of toks]
  show "lex_loop ctx pos toks =
        lex_loop ctx (pos + n)
          (toks @ [\<lparr>tok_type = WhiteSpace,
                    tok_loc = \<lparr>loc_start = pos, loc_length = n, loc_file = filename ctx\<rparr>\<rparr>])"
    unfolding c by simp
qed

text \<open>
  The theorem at a run of a space and a tab before \<open>x y\<close>; at a space and the comment
  \<open># a\<close> before a newline and a second comment; at the comment \<open>//x\<close> before a newline; at a
  newline and the block comment \<open>/* a*b */\<close> before a space and a further comment; and at
  the first token of the source \<open>/**/\<close> followed by a space.
\<close>

theorem whitespace_run_token_witness:
  "chooseTok ([CHR '' '', CHR 0x09] @ ''x y'') = (WhiteSpace, length [CHR '' '', CHR 0x09]) \<and>
   chooseTok ('' '' @ ''#'' @ '' a'' @ (CHR 0x0A # ''# b'')) = (WhiteSpace, length '' '' + 1 + length '' a'') \<and>
   chooseTok ([] @ ''//'' @ ''x'' @ [CHR 0x0A]) = (WhiteSpace, length ([] :: string) + 2 + length ''x'') \<and>
   chooseTok ([CHR 0x0A] @ ''/*'' @ '' a*b '' @ ''*/'' @ '' #c'') =
     (WhiteSpace, length [CHR 0x0A] + length '' a*b '' + 4) \<and>
   lex_loop (test_ctx ''/**/ '') 0 [] =
     lex_loop (test_ctx ''/**/ '') (0 + 4)
       ([] @ [\<lparr>tok_type = WhiteSpace,
                tok_loc = \<lparr>loc_start = 0, loc_length = 4, loc_file = filename (test_ctx ''/**/ '')\<rparr>\<rparr>])"
proof -
  have 1: "set [CHR '' '', CHR 0x09] \<subseteq> set whiteSpace \<and> [CHR '' '', CHR 0x09] \<noteq> [] \<and>
      (''x y'' = [] \<or> hd ''x y'' \<notin> set whiteSpace) \<and>
      take 1 ''x y'' \<noteq> ''#'' \<and> take 2 ''x y'' \<noteq> ''//'' \<and> take 2 ''x y'' \<noteq> ''/*''"
    by (simp add: whiteSpace_def)
  have 2: "set '' '' \<subseteq> set whiteSpace \<and> CHR 0x0A \<notin> set '' a'' \<and>
      (CHR 0x0A # ''# b'' = [] \<or> hd (CHR 0x0A # ''# b'') = CHR 0x0A)"
    by (simp add: whiteSpace_def)
  have 3: "set ([] :: string) \<subseteq> set whiteSpace \<and> CHR 0x0A \<notin> set ''x'' \<and>
      ([CHR 0x0A] = [] \<or> hd [CHR 0x0A] = CHR 0x0A)"
    by simp
  have "\<forall>k < 5. \<not> ('' a*b '' ! k = CHR ''/'' \<and> (CHR ''*'' # '' a*b '') ! k = CHR ''*'')"
    by (simp add: eval_nat_numeral All_less_Suc)
  then have 4: "set [CHR 0x0A] \<subseteq> set whiteSpace \<and>
      (\<forall>k < length '' a*b ''. \<not> ('' a*b '' ! k = CHR ''/'' \<and> (CHR ''*'' # '' a*b '') ! k = CHR ''*'')) \<and>
      (length '' #c'' < 2 \<or> '' #c'' ! 1 \<noteq> CHR ''/'')"
    by (simp add: whiteSpace_def)
  have ct: "chooseTok (drop 0 (content (test_ctx ''/**/ ''))) = (WhiteSpace, 4)"
    by code_simp
  have 5: "0 < length (content (test_ctx ''/**/ '')) \<and>
      chooseTok (drop 0 (content (test_ctx ''/**/ ''))) = (WhiteSpace, 4)"
    using ct by (simp add: test_ctx_def)
  note inst = whitespace_run_token [where pos = 0 and ctx = "test_ctx ''/**/ ''" and n = 4 and toks = "[]"]
  have a: "chooseTok ([CHR '' '', CHR 0x09] @ ''x y'') = (WhiteSpace, length [CHR '' '', CHR 0x09])"
    using inst [where ws = "[CHR '' '', CHR 0x09]" and rest = "''x y''" and line = "[]" and body = "[]"] 1
    by blast
  have b: "chooseTok ('' '' @ ''#'' @ '' a'' @ (CHR 0x0A # ''# b'')) = (WhiteSpace, length '' '' + 1 + length '' a'')"
    using inst [where ws = "'' ''" and line = "'' a''" and rest = "CHR 0x0A # ''# b''" and body = "[]"] 2
    by blast
  have c: "chooseTok ([] @ ''//'' @ ''x'' @ [CHR 0x0A]) = (WhiteSpace, length ([] :: string) + 2 + length ''x'')"
    using inst [where ws = "[]" and line = "''x''" and rest = "[CHR 0x0A]" and body = "[]"] 3
    by blast
  have d: "chooseTok ([CHR 0x0A] @ ''/*'' @ '' a*b '' @ ''*/'' @ '' #c'') =
     (WhiteSpace, length [CHR 0x0A] + length '' a*b '' + 4)"
    using inst [where ws = "[CHR 0x0A]" and body = "'' a*b ''" and rest = "'' #c''" and line = "[]"] 4
    by blast
  have e: "lex_loop (test_ctx ''/**/ '') 0 [] =
     lex_loop (test_ctx ''/**/ '') (0 + 4)
       ([] @ [\<lparr>tok_type = WhiteSpace,
                tok_loc = \<lparr>loc_start = 0, loc_length = 4, loc_file = filename (test_ctx ''/**/ '')\<rparr>\<rparr>])"
    using inst [where ws = "[]" and body = "[]" and rest = "[]" and line = "[]"] 5
    by blast
  from a b c d e show ?thesis by blast
qed

section \<open>Number runs\<close>

text \<open>
  C8 as stated fails for runs that begin with a dot: the dot is an operator character and
  the operator rule comes before the number rule, so a run of dots is an \<open>Operator\<close> token.
\<close>

theorem dot_run_counterexample:
  "chooseTok ''.'' = (Operator, 1) \<and>
   chooseTok ''...'' = (Operator, 3) \<and>
   lex_ctx (test_ctx ''.'') = Some ([token Operator 0 1], (test_ctx ''.'')\<lparr>step := Lex\<rparr>)"
  by code_simp

text \<open>
  C8, amended: at every scan position that holds a digit, \<open>lex\<close> appends one \<open>NumberLiteral\<close>
  token that covers the longest run of digits and dots from there; at every scan position
  that holds a dot, the operator rule matches first and \<open>lex\<close> appends one \<open>Operator\<close> token
  that covers the longest run of operator characters from there.
\<close>

theorem number_run_token:
  "(pos < length (content ctx) \<and> content ctx ! pos \<in> set nums \<longrightarrow>
      chooseTok (drop pos (content ctx)) =
        (NumberLiteral, length (takeWhile (\<lambda>c. c \<in> set numberChar) (drop pos (content ctx)))) \<and>
      lex_loop ctx pos toks =
        lex_loop ctx (pos + length (takeWhile (\<lambda>c. c \<in> set numberChar) (drop pos (content ctx))))
          (toks @ [\<lparr>tok_type = NumberLiteral,
                    tok_loc = \<lparr>loc_start = pos,
                              loc_length = length (takeWhile (\<lambda>c. c \<in> set numberChar) (drop pos (content ctx))),
                              loc_file = filename ctx\<rparr>\<rparr>])) \<and>
   (pos < length (content ctx) \<and> content ctx ! pos = CHR ''.'' \<longrightarrow>
      chooseTok (drop pos (content ctx)) =
        (Operator, length (takeWhile (\<lambda>c. c \<in> set operatorChar) (drop pos (content ctx)))) \<and>
      lex_loop ctx pos toks =
        lex_loop ctx (pos + length (takeWhile (\<lambda>c. c \<in> set operatorChar) (drop pos (content ctx))))
          (toks @ [\<lparr>tok_type = Operator,
                    tok_loc = \<lparr>loc_start = pos,
                              loc_length = length (takeWhile (\<lambda>c. c \<in> set operatorChar) (drop pos (content ctx))),
                              loc_file = filename ctx\<rparr>\<rparr>]))"
proof (intro conjI impI; elim conjE)
  assume p: "pos < length (content ctx)" and c: "content ctx ! pos \<in> set nums"
  have d: "drop pos (content ctx) = content ctx ! pos # drop (Suc pos) (content ctx)"
    using p by (simp add: Cons_nth_drop_Suc)
  have ct: "chooseTok (drop pos (content ctx)) =
        (NumberLiteral, length (takeWhile (\<lambda>c. c \<in> set numberChar) (drop pos (content ctx))))"
    by (subst (1 2) d) (rule chooseTok_digit[OF c])
  then show "chooseTok (drop pos (content ctx)) =
        (NumberLiteral, length (takeWhile (\<lambda>c. c \<in> set numberChar) (drop pos (content ctx))))" .
  have "fst (chooseTok (drop pos (content ctx))) \<noteq> Error" using ct by simp
  from lex_loop_token[OF p this, of toks]
  show "lex_loop ctx pos toks =
        lex_loop ctx (pos + length (takeWhile (\<lambda>c. c \<in> set numberChar) (drop pos (content ctx))))
          (toks @ [\<lparr>tok_type = NumberLiteral,
                    tok_loc = \<lparr>loc_start = pos,
                              loc_length = length (takeWhile (\<lambda>c. c \<in> set numberChar) (drop pos (content ctx))),
                              loc_file = filename ctx\<rparr>\<rparr>])"
    unfolding ct by simp
next
  assume p: "pos < length (content ctx)" and c: "content ctx ! pos = CHR ''.''"
  have d: "drop pos (content ctx) = CHR ''.'' # drop (Suc pos) (content ctx)"
    using p c by (simp flip: Cons_nth_drop_Suc)
  have ct: "chooseTok (drop pos (content ctx)) =
        (Operator, length (takeWhile (\<lambda>c. c \<in> set operatorChar) (drop pos (content ctx))))"
    by (subst (1 2) d) (rule chooseTok_dot)
  then show "chooseTok (drop pos (content ctx)) =
        (Operator, length (takeWhile (\<lambda>c. c \<in> set operatorChar) (drop pos (content ctx))))" .
  have "fst (chooseTok (drop pos (content ctx))) \<noteq> Error" using ct by simp
  from lex_loop_token[OF p this, of toks]
  show "lex_loop ctx pos toks =
        lex_loop ctx (pos + length (takeWhile (\<lambda>c. c \<in> set operatorChar) (drop pos (content ctx))))
          (toks @ [\<lparr>tok_type = Operator,
                    tok_loc = \<lparr>loc_start = pos,
                              loc_length = length (takeWhile (\<lambda>c. c \<in> set operatorChar) (drop pos (content ctx))),
                              loc_file = filename ctx\<rparr>\<rparr>])"
    unfolding ct by simp
qed

text \<open>
  The theorem in the source \<open>x=1.5+.5\<close>: position 2 starts the number \<open>1.5\<close>, position 6
  holds a dot and starts an operator.
\<close>

theorem number_run_token_witness:
  "(2::nat) < length (content (test_ctx ''x=1.5+.5'')) \<and>
   content (test_ctx ''x=1.5+.5'') ! 2 \<in> set nums \<and>
   chooseTok (drop 2 (content (test_ctx ''x=1.5+.5''))) = (NumberLiteral, 3) \<and>
   lex_loop (test_ctx ''x=1.5+.5'') 2 [token Symbol 0 1, token Operator 1 1] =
     lex_loop (test_ctx ''x=1.5+.5'') 5 [token Symbol 0 1, token Operator 1 1, token NumberLiteral 2 3] \<and>
   (6::nat) < length (content (test_ctx ''x=1.5+.5'')) \<and>
   content (test_ctx ''x=1.5+.5'') ! 6 = CHR ''.'' \<and>
   chooseTok (drop 6 (content (test_ctx ''x=1.5+.5''))) = (Operator, 1)"
proof -
  have c: "content (test_ctx ''x=1.5+.5'') = ''x=1.5+.5''" "filename (test_ctx ''x=1.5+.5'') = ''<filename>''"
    by (simp_all add: test_ctx_def)
  have n: "length (takeWhile (\<lambda>c. c \<in> set numberChar) (drop 2 ''x=1.5+.5'')) = 3"
    by (simp add: numberChar_def nums_def)
  have n2: "length (takeWhile (\<lambda>c. c \<in> set operatorChar) (drop 6 ''x=1.5+.5'')) = 1"
    by (simp add: operatorChar_def)
  have h: "(2::nat) < length ''x=1.5+.5'' \<and> ''x=1.5+.5'' ! 2 \<in> set nums"
    "(6::nat) < length ''x=1.5+.5'' \<and> ''x=1.5+.5'' ! 6 = CHR ''.''"
    by (simp_all add: nums_def)
  show ?thesis
    using h
      number_run_token [of 2 "test_ctx ''x=1.5+.5''" "[token Symbol 0 1, token Operator 1 1]"]
      number_run_token [of 6 "test_ctx ''x=1.5+.5''" "[]"]
    unfolding c n n2 by (simp add: token_def)
qed

section \<open>The driver stops on a blocked context\<close>

text \<open>
  C6: if the log of the context already holds a message of severity \<open>MsgError\<close> or
  \<open>InternalError\<close> when \<open>getTree\<close> is entered, then \<open>done\<close> holds and \<open>getTree\<close> returns no
  tree and the context as it was, so that neither the lexer nor the tree builder has run;
  and if \<open>done\<close> holds of the context the lexer leaves, \<open>getTree\<close> returns no tree and that
  context, whatever the tree builder is: it does not run.
\<close>

theorem getTree_blocked:
  "((\<exists>m \<in> set (msgs ctx). msg_type m = MsgError \<or> msg_type m = InternalError) \<longrightarrow>
      done_ctx ctx \<and> getTree ast ctx = Some (None, ctx, [])) \<and>
   (\<not> done_ctx ctx \<and> lex_ctx ctx = Some (toks, ctx') \<and> done_ctx ctx' \<longrightarrow>
      getTree ast ctx = Some (None, ctx', [OutLexed (length toks), OutTokens toks]))"
  by (auto simp: getTree_def done_ctx_def list_ex_iff)

text \<open>
  The theorem at a context whose log holds an error, and at the source that is the byte 1,
  for which the lexer appends an error.
\<close>

theorem getTree_blocked_witness:
  "(\<exists>m \<in> set (msgs ((test_ctx ''12'')\<lparr>msgs := [unexpected (test_ctx ''12'') 0]\<rparr>)).
       msg_type m = MsgError \<or> msg_type m = InternalError) \<and>
   getTree (\<lambda>toks c. (Some (length toks), c)) ((test_ctx ''12'')\<lparr>msgs := [unexpected (test_ctx ''12'') 0]\<rparr>) =
     Some (None, (test_ctx ''12'')\<lparr>msgs := [unexpected (test_ctx ''12'') 0]\<rparr>, []) \<and>
   \<not> done_ctx (test_ctx [CHR 0x01]) \<and>
   lex_ctx (test_ctx [CHR 0x01]) =
     Some ([], (test_ctx [CHR 0x01])\<lparr>step := Lex, msgs := [unexpected (test_ctx [CHR 0x01]) 0]\<rparr>) \<and>
   done_ctx ((test_ctx [CHR 0x01])\<lparr>step := Lex, msgs := [unexpected (test_ctx [CHR 0x01]) 0]\<rparr>) \<and>
   getTree (\<lambda>toks c. (Some (length toks), c)) (test_ctx [CHR 0x01]) =
     Some (None, (test_ctx [CHR 0x01])\<lparr>step := Lex, msgs := [unexpected (test_ctx [CHR 0x01]) 0]\<rparr>,
           [OutLexed (length ([] :: Token list)), OutTokens []])"
proof -
  have a: "\<exists>m \<in> set (msgs ((test_ctx ''12'')\<lparr>msgs := [unexpected (test_ctx ''12'') 0]\<rparr>)).
       msg_type m = MsgError \<or> msg_type m = InternalError"
    by (simp add: unexpected_def)
  have b: "\<not> done_ctx (test_ctx [CHR 0x01])"
    by (simp add: done_ctx_def test_ctx_def)
  have c: "lex_ctx (test_ctx [CHR 0x01]) =
     Some ([], (test_ctx [CHR 0x01])\<lparr>step := Lex, msgs := [unexpected (test_ctx [CHR 0x01]) 0]\<rparr>)"
    by code_simp
  have d: "done_ctx ((test_ctx [CHR 0x01])\<lparr>step := Lex, msgs := [unexpected (test_ctx [CHR 0x01]) 0]\<rparr>)"
    by (simp add: done_ctx_def unexpected_def)
  show ?thesis
    using a b c d
      getTree_blocked [where ctx = "(test_ctx ''12'')\<lparr>msgs := [unexpected (test_ctx ''12'') 0]\<rparr>"
        and ast = "\<lambda>toks c. (Some (length toks), c)"]
      getTree_blocked [where ctx = "test_ctx [CHR 0x01]" and toks = "[]"
        and ctx' = "(test_ctx [CHR 0x01])\<lparr>step := Lex, msgs := [unexpected (test_ctx [CHR 0x01]) 0]\<rparr>"
        and ast = "\<lambda>toks c. (Some (length toks), c)"]
    by simp
qed

end
